theory Spec2Isabelle
  imports Complex_Main "HOL-Library.Multiset" "HOL-Library.Sublist"
    "HOL-Library.List_Lexorder" "HOL-Library.Char_ord"
begin

section \<open>JavaScript strings\<close>

text \<open>
  A string is a list of characters.  The source's few characters outside ASCII (the emoji
  of the headings) are written as their UTF-8 bytes; searching and cutting by a found
  index do the same on either encoding.

  \<open>indexOf\<close> is \<open>String.prototype.indexOf\<close>: the first position at which the pattern
  occurs, \<open>None\<close> for the source's \<open>-1\<close>.  \<open>includesStr\<close> is
  \<open>String.prototype.includes\<close>.
\<close>

fun indexOf :: "string \<Rightarrow> string \<Rightarrow> nat option" where
  "indexOf [] pat = (if pat = [] then Some 0 else None)"
| "indexOf (c # cs) pat =
     (if prefix pat (c # cs) then Some 0 else map_option Suc (indexOf cs pat))"

definition includesStr :: "string \<Rightarrow> string \<Rightarrow> bool" where
  "includesStr s pat = (indexOf s pat \<noteq> None)"

text \<open>\<open>String.prototype.substring\<close> on indices within the string.\<close>

definition substring :: "string \<Rightarrow> nat \<Rightarrow> nat \<Rightarrow> string" where
  "substring s i j = take (j - i) (drop i s)"


text \<open>
  \<open>toLowerCase\<close> on the letters A to Z.  The patterns it is used with are ASCII and no
  character outside ASCII has a lower-case form that lets one of them match.
\<close>

definition toLowerChar :: "char \<Rightarrow> char" where
  "toLowerChar c =
     (case map_of (zip ''ABCDEFGHIJKLMNOPQRSTUVWXYZ'' ''abcdefghijklmnopqrstuvwxyz'') c of
        Some l \<Rightarrow> l
      | None \<Rightarrow> c)"

definition toLowerCase :: "string \<Rightarrow> string" where
  "toLowerCase s = map toLowerChar s"

text \<open>The decimal numeral of a natural number, as a template literal prints it.\<close>

definition digit :: "nat \<Rightarrow> char" where
  "digit d = ''0123456789'' ! d"

fun toString :: "nat \<Rightarrow> string" where
  "toString n = (if n < 10 then [digit n] else toString (n div 10) @ [digit (n mod 10)])"

declare toString.simps [simp del]

text \<open>\<open>Array.prototype.join\<close> and \<open>String.prototype.split\<close> on a one-character separator.\<close>

fun join :: "string \<Rightarrow> string list \<Rightarrow> string" where
  "join sep [] = []"
| "join sep [x] = x"
| "join sep (x # y # ys) = x @ sep @ join sep (y # ys)"

fun split :: "char \<Rightarrow> string \<Rightarrow> string list" where
  "split sep [] = [[]]"
| "split sep (c # cs) =
     (if c = sep then [] # split sep cs
      else (case split sep cs of [] \<Rightarrow> [[c]] | l # ls \<Rightarrow> (c # l) # ls))"

section \<open>State store: the label-backed state machine (StateManager)\<close>

text \<open>
  The issue tracker is the system of record: a ticket's orchestration state is the state
  label it carries.  The tracker is a capability interface of the state store; here it is
  the function from issue numbers to the list of label names on that issue, and the three
  commands \<open>getLabels\<close>, \<open>removeLabel\<close> and \<open>addLabel\<close> of \<open>LabelOperations\<close>
  read it, drop a name, and add a name that is not yet present.
\<close>

type_synonym tracker = "nat \<Rightarrow> string list"

definition getLabels :: "tracker \<Rightarrow> nat \<Rightarrow> string list" where
  "getLabels tr issueNumber = tr issueNumber"

definition removeLabel :: "tracker \<Rightarrow> nat \<Rightarrow> string \<Rightarrow> tracker" where
  "removeLabel tr issueNumber label = tr(issueNumber := removeAll label (tr issueNumber))"

definition addLabel :: "tracker \<Rightarrow> nat \<Rightarrow> string \<Rightarrow> tracker" where
  "addLabel tr issueNumber label =
     tr(issueNumber := (if label \<in> set (tr issueNumber) then tr issueNumber
                        else tr issueNumber @ [label]))"

text \<open>The array \<open>stateLabels\<close> of \<open>getCurrentState\<close>, in the source's order.\<close>

definition stateLabels :: "string list" where
  "stateLabels =
     [''oc-ralph:planning'',
      ''oc-ralph:awaiting-approval'',
      ''oc-ralph:approved'',
      ''oc-ralph:implementing'',
      ''oc-ralph:testing'',
      ''oc-ralph:completing'',
      ''oc-ralph:completed'',
      ''oc-ralph:pr-created'',
      ''oc-ralph:failed'',
      ''oc-ralph:rejected'',
      ''oc-ralph:paused'']"

text \<open>
  \<open>getCurrentState\<close> walks \<open>stateLabels\<close> and returns the first one the ticket carries;
  \<open>None\<close> is the source's \<open>null\<close>.
\<close>

definition getCurrentState :: "tracker \<Rightarrow> nat \<Rightarrow> string option" where
  "getCurrentState tr issueNumber =
     find (\<lambda>stateLabel. stateLabel \<in> set (getLabels tr issueNumber)) stateLabels"

definition resumableStates :: "string list" where
  "resumableStates =
     [''oc-ralph:planning'',
      ''oc-ralph:awaiting-approval'',
      ''oc-ralph:approved'',
      ''oc-ralph:implementing'',
      ''oc-ralph:testing'',
      ''oc-ralph:completing'']"

definition canResume :: "tracker \<Rightarrow> nat \<Rightarrow> bool" where
  "canResume tr issueNumber =
     (case getCurrentState tr issueNumber of
        None \<Rightarrow> False
      | Some state \<Rightarrow> state \<in> set resumableStates)"

text \<open>
  Every tracker command can fail (the command-line client throws).  A call of
  \<open>transitionTo\<close> is modelled together with the point at which the tracker fails, if it
  does: the labels written before the failure stay written.
\<close>

datatype tracker_error = CommandFailed

datatype fault = NoFault | GetLabelsFails | RemoveLabelFails | AddLabelFails

definition transitionTo ::
  "fault \<Rightarrow> tracker \<Rightarrow> nat \<Rightarrow> string \<Rightarrow> (tracker_error + unit) \<times> tracker" where
  "transitionTo f tr issueNumber newState =
     (if f = GetLabelsFails then (Inl CommandFailed, tr)
      else
        (case getCurrentState tr issueNumber of
           None \<Rightarrow>
             (if f = AddLabelFails then (Inl CommandFailed, tr)
              else (Inr (), addLabel tr issueNumber newState))
         | Some currentState \<Rightarrow>
             (if f = RemoveLabelFails then (Inl CommandFailed, tr)
              else
                (let tr1 = removeLabel tr issueNumber currentState in
                 if f = AddLabelFails then (Inl CommandFailed, tr1)
                 else (Inr (), addLabel tr1 issueNumber newState)))))"

text \<open>A sequence of \<open>transitionTo\<close> calls, each on some ticket, with some new state.\<close>

fun transitions :: "(fault \<times> nat \<times> string) list \<Rightarrow> tracker \<Rightarrow> tracker" where
  "transitions [] tr = tr"
| "transitions ((f, issueNumber, newState) # calls) tr =
     transitions calls (snd (transitionTo f tr issueNumber newState))"

text \<open>The state labels a ticket carries, and the invariant that there is at most one.\<close>

definition stateLabelsOn :: "string list \<Rightarrow> string list" where
  "stateLabelsOn labels = filter (\<lambda>stateLabel. stateLabel \<in> set labels) stateLabels"

definition atMostOneStateLabel :: "string list \<Rightarrow> bool" where
  "atMostOneStateLabel labels = (length (stateLabelsOn labels) \<le> 1)"

section \<open>Dependency resolver (DependencyResolver)\<close>

text \<open>
  A task carries an id and an optional list of prerequisite ids (\<open>task.dependencies\<close>
  may be undefined).  The field \<open>id\<close> is called \<open>tid\<close> here.
\<close>

record task =
  tid :: string
  dependencies :: "string list option"

text \<open>\<open>task.dependencies || []\<close>\<close>

definition dependenciesOrEmpty :: "task \<Rightarrow> string list" where
  "dependenciesOrEmpty t = (case dependencies t of None \<Rightarrow> [] | Some deps \<Rightarrow> deps)"

text \<open>
  What the resolver throws: its two \<open>Error\<close>s, told apart by their message, \<open>Task <id>
  depends on non-existent task <depId>\<close> and \<open>Circular dependency detected or orphaned
  tasks: <ids>\<close> with the ids of the tasks that were never scheduled; and the \<open>TypeError\<close>
  of the runtime when the code calls or reads something that is not there.
\<close>

datatype resolver_error =
  InvalidDependency string string
  | CyclicDependency "string list"
  | TypeError string

subsection \<open>The graph object\<close>

text \<open>
  The dependency graph is the plain object \<open>graph = {}\<close>, filled by \<open>graph[task.id] =
  \<dots>\<close>.  A plain object is not a dictionary: it has its own properties and a prototype,
  and the key \<open>__proto__\<close> names the prototype.

  \<^item> \<open>own\<close> holds the object's own properties, here arrays of ids.
  \<^item> \<open>prototype\<close> is \<open>None\<close> while the prototype is the initial one, \<open>Object.prototype\<close>,
    and \<open>Some deps\<close> once it has been replaced by the array \<open>deps\<close>.
\<close>

record graph =
  own :: "string \<rightharpoonup> string list"
  prototype :: "string list option"

definition emptyObject :: graph where
  "emptyObject = \<lparr>own = Map.empty, prototype = None\<rparr>"

text \<open>
  \<open>graph[key] = deps\<close>.  On an object without an own property \<open>__proto__\<close>, assigning an
  array to that key runs the setter inherited from \<open>Object.prototype\<close>, which replaces
  the prototype and creates no property.  Any other key becomes an own property, also a
  key that names an inherited property such as \<open>hasOwnProperty\<close> or \<open>constructor\<close>.
\<close>

definition assign :: "graph \<Rightarrow> string \<Rightarrow> string list \<Rightarrow> graph" where
  "assign g key deps =
     (if key = ''__proto__'' \<and> own g key = None
      then g\<lparr>prototype := Some deps\<rparr>
      else g\<lparr>own := (own g)(key \<mapsto> deps)\<rparr>)"

text \<open>
  What reading \<open>graph[key]\<close> gives: nothing (\<open>undefined\<close>), an array of ids, or some
  other value that the object inherits from the runtime's prototypes (a method such as
  \<open>toString\<close>, \<open>Object.prototype\<close> itself, the length or an element of an array that
  became the prototype).  Of such a value the resolver only uses whether it is truthy and
  what its property \<open>length\<close> is, if it has one.
\<close>

datatype property =
  Missing
  | Dependencies "string list"
  | Builtin bool "nat option"

text \<open>
  The properties an object inherits are the runtime's: \<open>inherited\<close> gives, for the
  object's prototype and a key that is not an own property of the object and not
  \<open>__proto__\<close>, what the prototype chain holds for it.  It is a parameter of the model.
  The key \<open>__proto__\<close> reads the prototype: the array that replaced it, or
  \<open>Object.prototype\<close>, an object without a length.
\<close>

type_synonym prototypes = "string list option \<Rightarrow> string \<Rightarrow> property"

definition getProperty :: "prototypes \<Rightarrow> graph \<Rightarrow> string \<Rightarrow> property" where
  "getProperty inherited g key =
     (case own g key of
        Some deps \<Rightarrow> Dependencies deps
      | None \<Rightarrow>
          if key = ''__proto__'' then
            (case prototype g of
               Some deps \<Rightarrow> Dependencies deps
             | None \<Rightarrow> Builtin True None)
          else inherited (prototype g) key)"

text \<open>
  The call \<open>graph.hasOwnProperty(depId)\<close>.  The method is found on the prototype chain
  (arrays inherit it from \<open>Object.prototype\<close> too) unless the object has an own property
  of that name; this one then is an array, and calling it throws.  The method answers
  whether \<open>depId\<close> is an own property.
\<close>

definition hasOwnProperty :: "graph \<Rightarrow> string \<Rightarrow> resolver_error + bool" where
  "hasOwnProperty g depId =
     (case own g ''hasOwnProperty'' of
        Some deps \<Rightarrow> Inl (TypeError ''graph.hasOwnProperty is not a function'')
      | None \<Rightarrow> Inr (own g depId \<noteq> None))"

subsection \<open>Building the graph\<close>

text \<open>The first pass of \<open>buildDependencyGraph\<close>: one assignment per task, in order.\<close>

definition graphOf :: "task list \<Rightarrow> graph" where
  "graphOf tasks = fold (\<lambda>t g. assign g (tid t) (dependenciesOrEmpty t)) tasks emptyObject"

text \<open>
  The validation pass: tasks in order, for each the prerequisites \<open>graph[task.id]\<close> in
  order; the first prerequisite that is not an own property of the graph throws.
  \<open>deps.forEach\<close> itself throws if \<open>graph[task.id]\<close> is not an array.
\<close>

fun checkDependencies :: "graph \<Rightarrow> string \<Rightarrow> string list \<Rightarrow> resolver_error option" where
  "checkDependencies g taskId [] = None"
| "checkDependencies g taskId (depId # deps) =
     (case hasOwnProperty g depId of
        Inl error \<Rightarrow> Some error
      | Inr known \<Rightarrow>
          if \<not> known then Some (InvalidDependency taskId depId)
          else checkDependencies g taskId deps)"

fun validateDependencies :: "prototypes \<Rightarrow> graph \<Rightarrow> task list \<Rightarrow> resolver_error option" where
  "validateDependencies inherited g [] = None"
| "validateDependencies inherited g (t # ts) =
     (case getProperty inherited g (tid t) of
        Dependencies deps \<Rightarrow>
          (case checkDependencies g (tid t) deps of
             Some error \<Rightarrow> Some error
           | None \<Rightarrow> validateDependencies inherited g ts)
      | Missing \<Rightarrow> Some (TypeError ''Cannot read properties of undefined (reading 'forEach')'')
      | Builtin truthiness len \<Rightarrow> Some (TypeError ''deps.forEach is not a function''))"

definition buildDependencyGraph :: "prototypes \<Rightarrow> task list \<Rightarrow> resolver_error + graph" where
  "buildDependencyGraph inherited tasks =
     (let g = graphOf tasks in
      case validateDependencies inherited g tasks of
        Some error \<Rightarrow> Inl error
      | None \<Rightarrow> Inr g)"

subsection \<open>Batches\<close>

text \<open>
  Batches are sorted with \<open>currentBatch.sort((a, b) => a.id.localeCompare(b.id))\<close>.
  The collation \<open>localeCompare\<close> belongs to the JavaScript runtime; it is a parameter
  here, a function to the integers whose sign orders two ids.  \<open>Array.prototype.sort\<close> is
  stable, so the sort is insertion from the right, an element going before the first
  element it does not exceed.
\<close>

fun insertById :: "(string \<Rightarrow> string \<Rightarrow> int) \<Rightarrow> task \<Rightarrow> task list \<Rightarrow> task list" where
  "insertById localeCompare a [] = [a]"
| "insertById localeCompare a (b # bs) =
     (if localeCompare (tid a) (tid b) \<le> 0 then a # b # bs
      else b # insertById localeCompare a bs)"

definition sortById :: "(string \<Rightarrow> string \<Rightarrow> int) \<Rightarrow> task list \<Rightarrow> task list" where
  "sortById localeCompare batch = foldr (insertById localeCompare) batch []"

text \<open>\<open>Array.prototype.filter\<close> with a callback that may throw: the first throw ends it.\<close>

fun filterThrowing :: "('a \<Rightarrow> 'e + bool) \<Rightarrow> 'a list \<Rightarrow> 'e + 'a list" where
  "filterThrowing callback [] = Inr []"
| "filterThrowing callback (x # xs) =
     (case callback x of
        Inl error \<Rightarrow> Inl error
      | Inr keep \<Rightarrow>
          (case filterThrowing callback xs of
             Inl error \<Rightarrow> Inl error
           | Inr kept \<Rightarrow> Inr (if keep then x # kept else kept)))"

text \<open>
  The callback of the filter in the loop body: a completed task is left out; of another
  one, \<open>deps = dependencyGraph[t.id] || []\<close> and the answer is \<open>deps.every(depId =>
  completed.has(depId))\<close>, which throws if \<open>deps\<close> is a truthy value other than an array.
\<close>

definition ready :: "prototypes \<Rightarrow> graph \<Rightarrow> string set \<Rightarrow> task \<Rightarrow> resolver_error + bool" where
  "ready inherited dependencyGraph completed t =
     (if tid t \<in> completed then Inr False
      else
        (case getProperty inherited dependencyGraph (tid t) of
           Dependencies deps \<Rightarrow> Inr (\<forall>depId \<in> set deps. depId \<in> completed)
         | Missing \<Rightarrow> Inr True
         | Builtin truthiness len \<Rightarrow>
             if truthiness then Inl (TypeError ''deps.every is not a function'') else Inr True))"

definition nextBatch ::
  "prototypes \<Rightarrow> graph \<Rightarrow> string set \<Rightarrow> task list \<Rightarrow> resolver_error + task list" where
  "nextBatch inherited dependencyGraph completed tasks =
     filterThrowing (ready inherited dependencyGraph completed) tasks"

text \<open>
  The \<open>while (currentBatch.length > 0)\<close> loop, with the variables \<open>batches\<close>,
  \<open>completed\<close> and \<open>currentBatch\<close> as arguments.  It terminates because every batch but
  possibly the first consists of tasks that were not completed before.
\<close>

function batchLoop ::
  "(string \<Rightarrow> string \<Rightarrow> int) \<Rightarrow> prototypes \<Rightarrow> task list \<Rightarrow> graph \<Rightarrow> task list list \<Rightarrow> string set
     \<Rightarrow> task list \<Rightarrow> resolver_error + task list list \<times> string set" where
  "batchLoop localeCompare inherited tasks g batches completed currentBatch =
     (if currentBatch = [] then Inr (batches, completed)
      else
        (let sorted = sortById localeCompare currentBatch;
             batches' = batches @ [sorted];
             completed' = completed \<union> tid ` set currentBatch
         in case nextBatch inherited g completed' tasks of
              Inl error \<Rightarrow> Inl error
            | Inr following \<Rightarrow>
                batchLoop localeCompare inherited tasks g batches' completed' following))"
  by pat_completeness auto
termination
proof (relation "measure (\<lambda>(localeCompare, inherited, tasks, g, batches, completed, currentBatch).
          2 * length (filter (\<lambda>t. tid t \<notin> completed \<union> tid ` set currentBatch) tasks)
          + (if currentBatch = [] then 0 else 1))", goal_cases)
  case 1
  show ?case by simp
next
  case (2 localeCompare inherited tasks g batches completed currentBatch sorted batches'
          completed' following)
  let ?rest = "filter (\<lambda>t. tid t \<notin> completed') tasks"
  have kept: "set kept \<subseteq> {x \<in> set xs. callback x = Inr True}"
    if "filterThrowing callback xs = Inr kept"
    for callback :: "task \<Rightarrow> resolver_error + bool" and xs kept
    using that
    by (induction xs arbitrary: kept) (auto split: sum.splits if_splits)
  have c: "completed' = completed \<union> tid ` set currentBatch"
    using 2 by simp
  from 2 have "filterThrowing (ready inherited g completed') tasks = Inr following"
    by (simp add: nextBatch_def)
  from kept [OF this] have sub: "set following \<subseteq> set ?rest"
    by (auto simp: ready_def split: if_splits)
  have split: "filter (\<lambda>t. tid t \<notin> completed' \<union> tid ` set following) tasks
      = filter (\<lambda>t. tid t \<notin> tid ` set following) ?rest"
    by (simp add: conj_commute)
  have less: "following \<noteq> [] \<Longrightarrow>
      length (filter (\<lambda>t. tid t \<notin> tid ` set following) ?rest) < length ?rest"
  proof -
    assume "following \<noteq> []"
    then obtain u where u: "u \<in> set following" by (cases following) auto
    with sub have "u \<in> set ?rest" by blast
    moreover have "\<not> tid u \<notin> tid ` set following" using u by blast
    ultimately show ?thesis by (rule length_filter_less)
  qed
  show ?case
  proof (cases "following = []")
    case True
    then show ?thesis using 2 c by simp
  next
    case False
    from less [OF False] split False show ?thesis using 2 c by simp
  qed
qed

declare batchLoop.simps [simp del]

text \<open>
  \<open>resolveBatches\<close>: the first batch is the tasks without prerequisites
  (\<open>!dependencyGraph[t.id] || dependencyGraph[t.id].length === 0\<close>); after the loop,
  \<open>completed.size !== tasks.length\<close> throws, naming the tasks whose id is not completed.
\<close>

definition firstBatch :: "prototypes \<Rightarrow> graph \<Rightarrow> task list \<Rightarrow> task list" where
  "firstBatch inherited dependencyGraph tasks =
     filter (\<lambda>t. case getProperty inherited dependencyGraph (tid t) of
                    Missing \<Rightarrow> True
                  | Dependencies deps \<Rightarrow> length deps = 0
                  | Builtin truthiness len \<Rightarrow> \<not> truthiness \<or> len = Some 0)
       tasks"

definition resolveBatches ::
  "(string \<Rightarrow> string \<Rightarrow> int) \<Rightarrow> prototypes \<Rightarrow> task list \<Rightarrow> graph
     \<Rightarrow> resolver_error + task list list" where
  "resolveBatches localeCompare inherited tasks dependencyGraph =
     (let currentBatch = firstBatch inherited dependencyGraph tasks in
      case batchLoop localeCompare inherited tasks dependencyGraph [] {} currentBatch of
        Inl error \<Rightarrow> Inl error
      | Inr (batches, completed) \<Rightarrow>
          if card completed \<noteq> length tasks
          then Inl (CyclicDependency (map tid (filter (\<lambda>t. tid t \<notin> completed) tasks)))
          else Inr batches)"

subsection \<open>Notions for stating the properties\<close>

text \<open>
  The dependency relation the tasks declare (a task's id, one of its prerequisites), for
  stating that the input is acyclic, and the ids of the input.
\<close>

definition dependencyEdges :: "task list \<Rightarrow> (string \<times> string) list" where
  "dependencyEdges tasks = concat (map (\<lambda>t. map (\<lambda>depId. (tid t, depId)) (dependenciesOrEmpty t)) tasks)"

definition taskIds :: "task list \<Rightarrow> string set" where
  "taskIds tasks = tid ` set tasks"

text \<open>
  Two comparisons for concrete runs.  \<open>codeUnitCompare\<close> is the lexicographic order of
  strings by character code.  \<open>alphabeticCompare\<close> orders letters alphabetically without
  regard to their case, as the runtime's default collation does before it looks at the
  case: \<open>'B'.localeCompare('a')\<close> is positive, although \<open>B\<close> has the smaller code.
\<close>

definition codeUnitCompare :: "string \<Rightarrow> string \<Rightarrow> int" where
  "codeUnitCompare a b = (if a < b then - 1 else if a = b then 0 else 1)"

definition alphabeticCompare :: "string \<Rightarrow> string \<Rightarrow> int" where
  "alphabeticCompare a b = codeUnitCompare (toLowerCase a) (toLowerCase b)"

text \<open>
  The prerequisites the graph holds for an id, where it holds an array, and the tasks
  that can be scheduled next under given prerequisites: those not completed, all of whose
  prerequisites are completed.
\<close>

definition graphDeps :: "prototypes \<Rightarrow> graph \<Rightarrow> string \<Rightarrow> string list" where
  "graphDeps inherited g i =
     (case getProperty inherited g i of Dependencies deps \<Rightarrow> deps | _ \<Rightarrow> [])"

definition readyTasks :: "(string \<Rightarrow> string list) \<Rightarrow> string set \<Rightarrow> task list \<Rightarrow> task list" where
  "readyTasks deps completed tasks =
     filter (\<lambda>t. tid t \<notin> completed \<and> (\<forall>depId \<in> set (deps (tid t)). depId \<in> completed)) tasks"

text \<open>
  The order the batches respect: every prerequisite of a task in batch \<open>i\<close> is the id of a
  task in an earlier batch.
\<close>

definition batchesOrdered :: "(string \<Rightarrow> string list) \<Rightarrow> task list list \<Rightarrow> bool" where
  "batchesOrdered deps bs \<longleftrightarrow>
     (\<forall>i < length bs. \<forall>t \<in> set (bs ! i). \<forall>d \<in> set (deps (tid t)).
        \<exists>j < i. d \<in> tid ` set (bs ! j))"
section \<open>Retry with exponential backoff (RetryManager)\<close>

text \<open>
  A thrown \<open>Error\<close>: its message, the property \<open>code\<close> that the agent executor sets to
  \<open>SERVER_UNREACHABLE\<close> on a failed health check, and the flag \<open>shouldRetry\<close> that it
  sets to \<open>false\<close> on errors it marks as non-retryable (\<open>None\<close> when a property was never
  set).  \<open>newError\<close> is \<open>new Error(message)\<close>, which sets neither.
\<close>

record js_error =
  message :: string
  code :: "string option"
  shouldRetry :: "bool option"

definition newError :: "string \<Rightarrow> js_error" where
  "newError msg = \<lparr>message = msg, code = None, shouldRetry = None\<rparr>"

text \<open>
  The delays are JavaScript numbers, and \<open>calculateBackoff\<close> computes them with the
  runtime's floating-point multiplication and its \<open>Math.pow\<close>, whose results the language
  standard leaves to the implementation.  The type \<open>'d\<close> of numbers and these two
  operations are therefore parameters: \<open>multiply\<close> is \<open>*\<close> on numbers, and \<open>mathPow x n\<close> is
  \<open>Math.pow(x, n)\<close> for the integer \<open>n\<close>.
\<close>

record 'd arithmetic =
  multiply :: "'d \<Rightarrow> 'd \<Rightarrow> 'd"
  mathPow :: "'d \<Rightarrow> nat \<Rightarrow> 'd"

record 'd retry_config =
  maxAttempts :: nat
  backoffMultiplier :: 'd
  initialDelayMs :: 'd

record retry_context =
  maxRetries :: "nat option"

definition nonRetryablePatterns :: "string list" where
  "nonRetryablePatterns =
     [''rate limit'',
      ''quota exceeded'',
      ''authentication'',
      ''not found'',
      ''permission denied'']"

definition isRetryable :: "js_error \<Rightarrow> bool" where
  "isRetryable error =
     (let errorMessage = toLowerCase (message error) in
      \<not> list_ex (\<lambda>pattern. includesStr errorMessage pattern) nonRetryablePatterns)"

text \<open>\<open>baseDelay * Math.pow(multiplier, attempt - 1)\<close>\<close>

definition calculateBackoff :: "'d arithmetic \<Rightarrow> 'd retry_config \<Rightarrow> nat \<Rightarrow> 'd" where
  "calculateBackoff js config attempt =
     (let baseDelay = initialDelayMs config;
          multiplier = backoffMultiplier config
      in multiply js baseDelay (mathPow js multiplier (attempt - 1)))"

text \<open>
  What a run of \<open>executeWithRetry\<close> did: the value it returned or the error it threw,
  how many times it called the thunk, and the delays it slept, in order.
\<close>

record ('a, 'd) retry_run =
  outcome :: "js_error + 'a"
  attempts :: nat
  slept :: "'d list"

text \<open>
  The code after the loop: \<open>throw new Error(`Failed after ${maxAttempts} attempts:
  ${lastError.message}`)\<close>.  With \<open>lastError\<close> still \<open>null\<close> (the loop body never ran)
  reading \<open>lastError.message\<close> is a \<open>TypeError\<close>.
\<close>

definition exhausted :: "nat \<Rightarrow> js_error option \<Rightarrow> js_error" where
  "exhausted maxAttempts' lastError =
     (case lastError of
        None \<Rightarrow> newError ''Cannot read properties of null (reading 'message')''
      | Some e \<Rightarrow>
          newError (''Failed after '' @ toString maxAttempts' @ '' attempts: '' @ message e))"

text \<open>
  The \<open>for\<close> loop of \<open>executeWithRetry\<close>.  The thunk \<open>fn\<close> is called with the attempt
  number and returns a value (\<open>Inr\<close>) or throws (\<open>Inl\<close>); \<open>calls\<close> counts the calls made
  so far and \<open>sleeps\<close> collects the delays.
\<close>

function retryLoop ::
  "'d arithmetic \<Rightarrow> 'd retry_config \<Rightarrow> (nat \<Rightarrow> js_error + 'a) \<Rightarrow> nat \<Rightarrow> nat
     \<Rightarrow> js_error option \<Rightarrow> nat \<Rightarrow> 'd list \<Rightarrow> ('a, 'd) retry_run" where
  "retryLoop js config fn maxAttempts' attempt lastError calls sleeps =
     (if attempt \<le> maxAttempts' then
        (case fn attempt of
           Inr result \<Rightarrow> \<lparr>outcome = Inr result, attempts = calls + 1, slept = sleeps\<rparr>
         | Inl error \<Rightarrow>
             (if \<not> isRetryable error
              then \<lparr>outcome = Inl error, attempts = calls + 1, slept = sleeps\<rparr>
              else if attempt \<ge> maxAttempts'
              then \<lparr>outcome = Inl (exhausted maxAttempts' (Some error)),
                     attempts = calls + 1, slept = sleeps\<rparr>
              else
                (let delay = calculateBackoff js config attempt in
                 retryLoop js config fn maxAttempts' (attempt + 1) (Some error) (calls + 1)
                   (sleeps @ [delay]))))
      else \<lparr>outcome = Inl (exhausted maxAttempts' lastError), attempts = calls, slept = sleeps\<rparr>)"
  by pat_completeness auto
termination
  by (relation "measure (\<lambda>(js, config, fn, maxAttempts', attempt, lastError, calls, sleeps).
                  Suc maxAttempts' - attempt)") auto

declare retryLoop.simps [simp del]

text \<open>\<open>const maxAttempts = context.maxRetries || this.config.maxAttempts\<close>: zero is falsy.\<close>

definition effectiveMaxAttempts :: "'d retry_config \<Rightarrow> retry_context \<Rightarrow> nat" where
  "effectiveMaxAttempts config context =
     (case maxRetries context of
        None \<Rightarrow> maxAttempts config
      | Some m \<Rightarrow> if m = 0 then maxAttempts config else m)"

definition executeWithRetry ::
  "'d arithmetic \<Rightarrow> 'd retry_config \<Rightarrow> (nat \<Rightarrow> js_error + 'a) \<Rightarrow> retry_context
     \<Rightarrow> ('a, 'd) retry_run" where
  "executeWithRetry js config fn context =
     retryLoop js config fn (effectiveMaxAttempts config context) 1 None 0 []"

text \<open>
  One arithmetic for concrete runs: the integers with their exact product and power.  The
  numbers of the runs below (1000, 2 and their products) are integers far below
  \<open>2 ^ 53\<close>, on which floating-point multiplication is exact.
\<close>

definition integerArithmetic :: "int arithmetic" where
  "integerArithmetic = \<lparr>multiply = (\<lambda>a b. a * b), mathPow = (\<lambda>x n. x ^ n)\<rparr>"

section \<open>Self-heal loop (TestRetryCoordinator) and its caller (TestingStage)\<close>

text \<open>
  The coordinator works through collaborators: the failure handler, the agent executor,
  the task poller, the tracker, the notifier and the status reporter.  Each of their calls
  returns or throws.  What they answer is the environment of a run: for the calls made
  once per fix attempt, a function of the attempt number; for the calls made once per
  run, a single answer.  Since the coordinator makes each call at most once per attempt,
  and attempts in order, this covers collaborators with state of their own.

  \<open>createFixIssue\<close>, \<open>runFixAgent\<close>, \<open>handleSuccessfulFix\<close> and \<open>rerunDependentTests\<close> are
  the coordinator's own methods of these names, each a sequence of collaborator calls that
  rethrows what they throw.  \<open>rerunTestBody\<close> is the \<open>try\<close> block of \<open>rerunTest\<close>, and
  \<open>commentStillFailing\<close> the \<open>createComment\<close> call on the fix ticket.  The last four are
  the four calls of \<open>handleMaxAttemptsReached\<close>.
\<close>

record collaborators =
  notifyTestFailed :: "js_error + unit"
  createFixIssue :: "nat \<Rightarrow> js_error + nat"
  runFixAgent :: "nat \<Rightarrow> js_error + unit"
  rerunTestBody :: "nat \<Rightarrow> js_error + bool"
  commentStillFailing :: "nat \<Rightarrow> js_error + unit"
  handleSuccessfulFix :: "nat \<Rightarrow> js_error + unit"
  rerunDependentTests :: "nat \<Rightarrow> js_error + unit"
  addMaxAttemptsLabels :: "js_error + unit"
  commentMaxAttempts :: "js_error + unit"
  notifyMaxAttempts :: "js_error + unit"
  notifyTaskUpdate :: "js_error + unit"

text \<open>
  What a run did, in order: the fix attempts it started, and the calls that returned.
\<close>

datatype effect =
  AttemptStarted nat
  | Notified string
  | FixIssueCreated nat nat
  | FixAgentRan nat
  | TestRerun nat bool
  | Commented nat string
  | FixClosedAsSuccessful nat
  | DependentTestsRerun nat
  | LabelsAdded nat "string list"
  | StatusTableRefreshed

text \<open>The result \<open>{success, attempts}\<close>; the field \<open>attempts\<close> is \<open>fixAttempts\<close> here.\<close>

record fix_result =
  success :: bool
  fixAttempts :: nat

text \<open>\<open>this.maxAttempts = 10\<close>\<close>

definition maxFixAttempts :: nat where
  "maxFixAttempts = 10"

definition crossMark :: string where
  "crossMark = [CHR 0xE2, CHR 0x9D, CHR 0x8C]"

definition stillFailingComment :: "nat \<Rightarrow> string" where
  "stillFailingComment attemptNumber =
     crossMark @ '' Test still failing after this fix attempt. Moving to attempt ''
       @ toString (attemptNumber + 1) @ ''/'' @ toString maxFixAttempts"

definition maxAttemptsComment :: string where
  "maxAttemptsComment =
     crossMark @ '' Maximum fix attempts ('' @ toString maxFixAttempts
       @ '') reached. Test could not be fixed automatically.''"

text \<open>\<open>rerunTest\<close> catches whatever its body throws and answers \<open>false\<close>.\<close>

definition rerunTest :: "collaborators \<Rightarrow> nat \<Rightarrow> bool" where
  "rerunTest env attemptNumber =
     (case rerunTestBody env attemptNumber of
        Inl error \<Rightarrow> False
      | Inr testPassed \<Rightarrow> testPassed)"

text \<open>
  The \<open>while\<close> loop of \<open>coordinateTestFix\<close>, with \<open>attemptNumber\<close> and \<open>testPassed\<close> as
  arguments.  Every \<open>Inl\<close> branch is the \<open>catch\<close> block: it logs and increments
  \<open>attemptNumber\<close>, leaving \<open>testPassed\<close> as the \<open>try\<close> block left it.
\<close>

datatype loop_exit = Returned fix_result | LoopEnded

function attemptLoop ::
  "collaborators \<Rightarrow> nat \<Rightarrow> nat \<Rightarrow> bool \<Rightarrow> effect list \<Rightarrow> loop_exit \<times> effect list" where
  "attemptLoop env testIssue attemptNumber testPassed trace =
     (if attemptNumber \<le> maxFixAttempts \<and> \<not> testPassed then
        (let trace1 = trace @ [AttemptStarted attemptNumber] in
         case createFixIssue env attemptNumber of
           Inl error \<Rightarrow> attemptLoop env testIssue (attemptNumber + 1) testPassed trace1
         | Inr fixIssue \<Rightarrow>
             (let trace2 = trace1 @ [FixIssueCreated attemptNumber fixIssue] in
              case runFixAgent env attemptNumber of
                Inl error \<Rightarrow> attemptLoop env testIssue (attemptNumber + 1) testPassed trace2
              | Inr _ \<Rightarrow>
                  (let trace3 = trace2 @ [FixAgentRan attemptNumber];
                       testPassed' = rerunTest env attemptNumber;
                       trace4 = trace3 @ [TestRerun attemptNumber testPassed']
                   in
                   if testPassed' then
                     (case handleSuccessfulFix env attemptNumber of
                        Inl error \<Rightarrow> attemptLoop env testIssue (attemptNumber + 1) testPassed' trace4
                      | Inr _ \<Rightarrow>
                          (let trace5 = trace4 @ [FixClosedAsSuccessful fixIssue] in
                           case rerunDependentTests env attemptNumber of
                             Inl error \<Rightarrow>
                               attemptLoop env testIssue (attemptNumber + 1) testPassed' trace5
                           | Inr _ \<Rightarrow>
                               (Returned \<lparr>success = True, fixAttempts = attemptNumber\<rparr>,
                                trace5 @ [DependentTestsRerun attemptNumber])))
                   else
                     (case commentStillFailing env attemptNumber of
                        Inl error \<Rightarrow> attemptLoop env testIssue (attemptNumber + 1) testPassed' trace4
                      | Inr _ \<Rightarrow>
                          attemptLoop env testIssue (attemptNumber + 1) testPassed'
                            (trace4 @ [Commented fixIssue (stillFailingComment attemptNumber)])))))
      else (LoopEnded, trace))"
  by pat_completeness auto
termination
  by (relation "measure (\<lambda>(env, testIssue, attemptNumber, testPassed, trace).
                  Suc maxFixAttempts - attemptNumber)") auto

declare attemptLoop.simps [simp del]

text \<open>\<open>handleMaxAttemptsReached\<close>: four calls in sequence, the first that throws ends it.\<close>

definition handleMaxAttemptsReached ::
  "collaborators \<Rightarrow> nat \<Rightarrow> effect list \<Rightarrow> (js_error + unit) \<times> effect list" where
  "handleMaxAttemptsReached env testIssue trace =
     (case addMaxAttemptsLabels env of
        Inl error \<Rightarrow> (Inl error, trace)
      | Inr _ \<Rightarrow>
          (let trace1 = trace @ [LabelsAdded testIssue
                               [''oc-ralph:max-attempts-reached'', ''oc-ralph:test-failed'']] in
           case commentMaxAttempts env of
             Inl error \<Rightarrow> (Inl error, trace1)
           | Inr _ \<Rightarrow>
               (let trace2 = trace1 @ [Commented testIssue maxAttemptsComment] in
                case notifyMaxAttempts env of
                  Inl error \<Rightarrow> (Inl error, trace2)
                | Inr _ \<Rightarrow>
                    (let trace3 = trace2 @ [Notified ''test-max-attempts-reached''] in
                     case notifyTaskUpdate env of
                       Inl error \<Rightarrow> (Inl error, trace3)
                     | Inr _ \<Rightarrow> (Inr (), trace3 @ [StatusTableRefreshed])))))"

text \<open>
  \<open>coordinateTestFix\<close>: what it returns (\<open>Inr\<close>) or throws (\<open>Inl\<close>), and what the run did.
\<close>

definition coordinateTestFix ::
  "collaborators \<Rightarrow> nat \<Rightarrow> (js_error + fix_result) \<times> effect list" where
  "coordinateTestFix env testIssue =
     (case notifyTestFailed env of
        Inl error \<Rightarrow> (Inl error, [])
      | Inr _ \<Rightarrow>
          (case attemptLoop env testIssue 1 False [Notified ''test-failed''] of
             (Returned result, trace) \<Rightarrow> (Inr result, trace)
           | (LoopEnded, trace) \<Rightarrow>
               (case handleMaxAttemptsReached env testIssue trace of
                  (Inl error, trace') \<Rightarrow> (Inl error, trace')
                | (Inr _, trace') \<Rightarrow>
                    (Inr \<lparr>success = False, fixAttempts = maxFixAttempts\<rparr>, trace'))))"

text \<open>The fix attempts a run started, in order.\<close>

fun attemptsStarted :: "effect list \<Rightarrow> nat list" where
  "attemptsStarted [] = []"
| "attemptsStarted (AttemptStarted k # trace) = k # attemptsStarted trace"
| "attemptsStarted (_ # trace) = attemptsStarted trace"

text \<open>
  Whether the test passes on a fix attempt: the fix ticket is created, the fix agent runs,
  and the re-run of the test reports a pass.
\<close>

definition testPassesOn :: "collaborators \<Rightarrow> nat \<Rightarrow> bool" where
  "testPassesOn env attemptNumber =
     (case createFixIssue env attemptNumber of
        Inl _ \<Rightarrow> False
      | Inr _ \<Rightarrow>
          (case runFixAgent env attemptNumber of
             Inl _ \<Rightarrow> False
           | Inr _ \<Rightarrow> rerunTest env attemptNumber))"

text \<open>
  Whether a fix attempt meets an exception in one of its three steps: creating the fix
  ticket, running the fix agent, re-running the test.
\<close>

definition attemptThrows :: "collaborators \<Rightarrow> nat \<Rightarrow> bool" where
  "attemptThrows env attemptNumber =
     (case createFixIssue env attemptNumber of
        Inl _ \<Rightarrow> True
      | Inr _ \<Rightarrow>
          (case runFixAgent env attemptNumber of
             Inl _ \<Rightarrow> True
           | Inr _ \<Rightarrow>
               (case rerunTestBody env attemptNumber of
                  Inl _ \<Rightarrow> True
                | Inr _ \<Rightarrow> False)))"

text \<open>
  The testing stage's \<open>fixFailedTests\<close> runs the coordinator on each failed test in turn
  and records \<open>{testIssue, success, attempts}\<close>; a throwing coordinator is recorded as
  unsuccessful with zero attempts.  \<open>execute\<close> then throws if any record is unsuccessful.
\<close>

record fix_report = fix_result +
  testIssueNumber :: nat

definition fixFailedTests :: "(nat \<times> collaborators) list \<Rightarrow> fix_report list" where
  "fixFailedTests failedTests =
     map (\<lambda>(failedTest, env).
            case fst (coordinateTestFix env failedTest) of
              Inr result \<Rightarrow>
                \<lparr>success = success result, fixAttempts = fixAttempts result,
                 testIssueNumber = failedTest\<rparr>
            | Inl error \<Rightarrow>
                \<lparr>success = False, fixAttempts = 0, testIssueNumber = failedTest\<rparr>)
         failedTests"

definition selfHealPhase :: "(nat \<times> collaborators) list \<Rightarrow> js_error + unit" where
  "selfHealPhase failedTests =
     (if length failedTests > 0 then
        (let fixResults = fixFailedTests failedTests;
             permanentlyFailed = filter (\<lambda>r. \<not> success r) fixResults
         in if length permanentlyFailed > 0
            then Inl (newError (toString (length permanentlyFailed)
                          @ '' test(s) could not be fixed after maximum attempts''))
            else Inr ())
      else Inr ())"

section \<open>The collaborators as the orchestrator wires them\<close>

text \<open>
  The orchestrator constructs the coordinator with an \<open>IssueOperations\<close> as \<open>issueOps\<close>,
  the \<open>StatusUpdater\<close>, the \<open>AgentExecutor\<close>, the \<open>TaskPoller\<close>, the \<open>DependencyResolver\<close>,
  the \<open>TestFailureHandler\<close> and the \<open>DiscordNotifier\<close>.  These are the methods the first
  five classes have; calling any other name on one of their objects is a \<open>TypeError\<close>,
  of which the model keeps the message.
\<close>

definition issueOperationsMethods :: "string list" where
  "issueOperationsMethods =
     [''getIssue'', ''createIssue'', ''updateIssue'', ''closeIssue'', ''addComment'',
      ''addLabels'', ''removeLabels'', ''getComments'', ''listIssues'', ''getIssuesByLabel'']"

definition statusUpdaterMethods :: "string list" where
  "statusUpdaterMethods =
     [''start'', ''stop'', ''updatePlanningStatus'', ''updatePlan'', ''updateStatusTable'',
      ''updateTaskProgress'', ''_flushProgressUpdate'', ''_updateHTMLComment'', ''onEvent'']"

definition agentExecutorMethods :: "string list" where
  "agentExecutorMethods = [''execute'', ''executeStructured'', ''checkOpenCodeHealth'']"

definition taskPollerMethods :: "string list" where
  "taskPollerMethods = [''waitForCompletion'', ''checkCompletionStatus'']"

definition dependencyResolverMethods :: "string list" where
  "dependencyResolverMethods =
     [''resolve'', ''buildDependencyGraph'', ''resolveBatches'', ''validateNoCycles'']"

definition typeError :: "string \<Rightarrow> js_error" where
  "typeError msg = newError msg"

text \<open>
  \<open>this.object.method(\<dots>)\<close> on an object with the given methods: the answer of the method
  if the object has it.
\<close>

definition invoke :: "string \<Rightarrow> string list \<Rightarrow> string \<Rightarrow> js_error + 'a \<Rightarrow> js_error + 'a" where
  "invoke object methods method answer =
     (if method \<in> set methods then answer
      else Inl (typeError (''this.'' @ object @ ''.'' @ method @ '' is not a function'')))"

text \<open>\<open>await\<close> one call, then go on with its value, or throw what it throws.\<close>

definition andThen :: "js_error + 'a \<Rightarrow> ('a \<Rightarrow> js_error + 'b) \<Rightarrow> js_error + 'b" where
  "andThen call rest = (case call of Inl error \<Rightarrow> Inl error | Inr v \<Rightarrow> rest v)"

text \<open>
  The values passed to \<open>IssueOperations.addLabels(repo, issueNumber, labels)\<close>: a call
  binds the parameters to the arguments in order, a parameter without an argument is
  \<open>undefined\<close>, and arguments beyond the parameters are dropped.
\<close>

datatype js_value = JsUndefined | JsNumber nat | JsString string | JsArray "string list"

definition argument :: "js_value list \<Rightarrow> nat \<Rightarrow> js_value" where
  "argument arguments i = (if i < length arguments then arguments ! i else JsUndefined)"

definition isTruthy :: "js_value \<Rightarrow> bool" where
  "isTruthy v =
     (case v of
        JsUndefined \<Rightarrow> False
      | JsNumber n \<Rightarrow> n \<noteq> 0
      | JsString s \<Rightarrow> s \<noteq> []
      | JsArray xs \<Rightarrow> True)"

text \<open>The property \<open>length\<close> of a value, \<open>None\<close> for \<open>undefined\<close> (a number has none).\<close>

definition lengthOf :: "js_value \<Rightarrow> nat option" where
  "lengthOf v =
     (case v of
        JsUndefined \<Rightarrow> None
      | JsNumber n \<Rightarrow> None
      | JsString s \<Rightarrow> Some (length s)
      | JsArray xs \<Rightarrow> Some (length xs))"

text \<open>A value as a template literal prints it.\<close>

definition display :: "js_value \<Rightarrow> string" where
  "display v =
     (case v of
        JsUndefined \<Rightarrow> ''undefined''
      | JsNumber n \<Rightarrow> toString n
      | JsString s \<Rightarrow> s
      | JsArray xs \<Rightarrow> join '','' xs)"

text \<open>
  \<open>IssueOperations.addLabels\<close>: it returns at once if \<open>labels\<close> is falsy or has length
  zero, and otherwise joins the labels and runs the tracker command \<open>exec\<close>.  Only an
  array has \<open>join\<close>.
\<close>

definition addLabels :: "(string \<Rightarrow> js_error + unit) \<Rightarrow> js_value list \<Rightarrow> js_error + unit" where
  "addLabels exec arguments =
     (let repo = argument arguments 0;
          issueNumber = argument arguments 1;
          labels = argument arguments 2
      in if \<not> isTruthy labels \<or> lengthOf labels = Some 0 then Inr ()
         else
           (case labels of
              JsArray xs \<Rightarrow>
                (let labelStr = join '','' xs in
                 exec (''issue edit '' @ display issueNumber @ '' --repo '' @ display repo
                         @ '' --add-label '' @ [CHR 0x22] @ labelStr @ [CHR 0x22]))
            | _ \<Rightarrow> Inl (typeError ''labels.join is not a function'')))"

text \<open>
  What the calls that do exist answer: \<open>testFailureHandler.handleTestFailure\<close> on each
  attempt (the number of the fix ticket it created), the coordinator's
  \<open>extractMasterIssueNumber\<close> on the test ticket, \<open>discordNotifier.notify\<close> for each event
  name, and the tracker command that \<open>addLabels\<close> runs.
\<close>

record wiring =
  handleTestFailure :: "nat \<Rightarrow> js_error + nat"
  extractMasterIssueNumber :: "js_error + nat"
  notify :: "string \<Rightarrow> js_error + unit"
  exec :: "string \<Rightarrow> js_error + unit"

text \<open>
  The coordinator's calls with these collaborators, for the test ticket \<open>testIssue\<close> of
  the repository \<open>owner/repo\<close>.  Each entry is the method's sequence of calls up to the
  first one on a method that its object does not have, where the method throws:

  \<^item> \<open>createFixIssue\<close> calls \<open>handleTestFailure\<close>, evaluates \<open>extractMasterIssueNumber\<close> for
    the notification's data, notifies, then calls \<open>statusUpdater.notifyTaskUpdate\<close>;
  \<^item> \<open>runFixAgent\<close> begins with \<open>agentExecutor.executeAgent\<close>;
  \<^item> \<open>rerunTest\<close> begins with \<open>issueOps.removeLabel\<close>;
  \<^item> the comment on a fix that did not help and the first call of \<open>handleSuccessfulFix\<close>
    are \<open>issueOps.createComment\<close>;
  \<^item> \<open>rerunDependentTests\<close> begins with \<open>dependencyResolver.resolveDependencies\<close>;
  \<^item> \<open>handleMaxAttemptsReached\<close> calls \<open>issueOps.addLabels(repo.owner, repo.repo,
    testIssue.number, [\<dots>])\<close>, \<open>issueOps.createComment\<close>, \<open>discordNotifier.notify\<close> and
    \<open>statusUpdater.notifyTaskUpdate\<close>.
\<close>

definition maxAttemptsLabelsCall :: "wiring \<Rightarrow> string \<Rightarrow> string \<Rightarrow> nat \<Rightarrow> js_error + unit" where
  "maxAttemptsLabelsCall w owner repo testIssue =
     invoke ''issueOps'' issueOperationsMethods ''addLabels''
       (addLabels (exec w)
          [JsString owner, JsString repo, JsNumber testIssue,
           JsArray [''oc-ralph:max-attempts-reached'', ''oc-ralph:test-failed'']])"

definition repositoryCollaborators :: "wiring \<Rightarrow> string \<Rightarrow> string \<Rightarrow> nat \<Rightarrow> collaborators" where
  "repositoryCollaborators w owner repo testIssue =
     \<lparr>notifyTestFailed = notify w ''test-failed'',
      createFixIssue = (\<lambda>attemptNumber.
         andThen (handleTestFailure w attemptNumber) (\<lambda>fixIssue.
         andThen (extractMasterIssueNumber w) (\<lambda>masterIssueNumber.
         andThen (notify w ''test-fix-started'') (\<lambda>_.
         andThen (invoke ''statusUpdater'' statusUpdaterMethods ''notifyTaskUpdate'' (Inr ())) (\<lambda>_.
         Inr fixIssue))))),
      runFixAgent = (\<lambda>attemptNumber.
         invoke ''agentExecutor'' agentExecutorMethods ''executeAgent'' (Inr ())),
      rerunTestBody = (\<lambda>attemptNumber.
         invoke ''issueOps'' issueOperationsMethods ''removeLabel'' (Inr False)),
      commentStillFailing = (\<lambda>attemptNumber.
         invoke ''issueOps'' issueOperationsMethods ''createComment'' (Inr ())),
      handleSuccessfulFix = (\<lambda>attemptNumber.
         invoke ''issueOps'' issueOperationsMethods ''createComment'' (Inr ())),
      rerunDependentTests = (\<lambda>attemptNumber.
         invoke ''dependencyResolver'' dependencyResolverMethods ''resolveDependencies'' (Inr ())),
      addMaxAttemptsLabels = maxAttemptsLabelsCall w owner repo testIssue,
      commentMaxAttempts = invoke ''issueOps'' issueOperationsMethods ''createComment'' (Inr ()),
      notifyMaxAttempts = notify w ''test-max-attempts-reached'',
      notifyTaskUpdate = invoke ''statusUpdater'' statusUpdaterMethods ''notifyTaskUpdate'' (Inr ())\<rparr>"

text \<open>
  A wiring for concrete runs: the failure handler creates the fix tickets 101, 102, \<dots>,
  the test ticket names its master ticket 1, the notifier is switched off (it returns at
  once) and the tracker command succeeds.
\<close>

definition quietWiring :: wiring where
  "quietWiring =
     \<lparr>handleTestFailure = (\<lambda>attemptNumber. Inr (100 + attemptNumber)),
      extractMasterIssueNumber = Inr 1,
      notify = (\<lambda>event. Inr ()),
      exec = (\<lambda>command. Inr ())\<rparr>"
section \<open>Debounced progress updates (StatusUpdater)\<close>


















section \<open>Issue body composer (IssueBodyManager)\<close>

definition startMarker :: string where
  "startMarker = ''<!-- oc-ralph-orchestration-start -->''"

definition endMarker :: string where
  "endMarker = ''<!-- oc-ralph-orchestration-end -->''"

text \<open>
  The heading \<open>updateStatusTable\<close> searches for (its local \<open>startMarker\<close>), with which
  a generated status table begins.  The chart emoji is U+1F4C8.
\<close>

definition statusTableMarker :: string where
  "statusTableMarker = ''## '' @ [CHR 0xF0, CHR 0x9F, CHR 0x93, CHR 0x88] @ '' Live Status Table''"

text \<open>A template literal prints an undefined value as \<open>undefined\<close>.\<close>

definition interpolate :: "string option \<Rightarrow> string" where
  "interpolate v = (case v of None \<Rightarrow> ''undefined'' | Some s \<Rightarrow> s)"

text \<open>
  The specification the architect agent returns.  The planning stage requires the first
  three fields; the others may be missing.  The field \<open>dependencies\<close> is
  \<open>specDependencies\<close> here.
\<close>

record tech_spec =
  requirements :: "string list"
  acceptance_criteria :: "string list"
  technical_approach :: string
  edge_cases :: "string list option"
  specDependencies :: "string list option"
  estimated_complexity :: "string option"

definition bulletList :: "string list \<Rightarrow> string" where
  "bulletList items = join ''\<newline>'' (map (\<lambda>r. ''- '' @ r) items)"

text \<open>\<open>xs?.map(x => `- ${x}`).join('\n') || fallback\<close>: the empty string is falsy.\<close>

definition bulletListOr :: "string list option \<Rightarrow> string \<Rightarrow> string" where
  "bulletListOr items fallback =
     (case items of
        None \<Rightarrow> fallback
      | Some xs \<Rightarrow> if bulletList xs = [] then fallback else bulletList xs)"

definition buildSpecSection :: "tech_spec \<Rightarrow> string" where
  "buildSpecSection spec =
     ''## '' @ [CHR 0xF0, CHR 0x9F, CHR 0x93, CHR 0x8B] @ '' Technical Specification\<newline>''
     @ ''\<newline>''
     @ ''### Requirements\<newline>''
     @ bulletList (requirements spec) @ ''\<newline>''
     @ ''\<newline>''
     @ ''### Acceptance Criteria\<newline>''
     @ bulletList (acceptance_criteria spec) @ ''\<newline>''
     @ ''\<newline>''
     @ ''### Technical Approach\<newline>''
     @ technical_approach spec @ ''\<newline>''
     @ ''\<newline>''
     @ ''### Edge Cases\<newline>''
     @ bulletListOr (edge_cases spec) ''None specified'' @ ''\<newline>''
     @ ''\<newline>''
     @ ''### Dependencies\<newline>''
     @ bulletListOr (specDependencies spec) ''None'' @ ''\<newline>''
     @ ''\<newline>''
     @ ''### Estimated Complexity\<newline>''
     @ ''**'' @ interpolate (estimated_complexity spec) @ ''**''"

definition buildOriginalRequestSection :: "string \<Rightarrow> string" where
  "buildOriginalRequestSection originalRequest =
     (let lines = split (CHR 0x0A) originalRequest;
          quotedLines = map (\<lambda>line. ''> '' @ line) lines
      in ''> **'' @ [CHR 0xF0, CHR 0x9F, CHR 0x93, CHR 0x8C] @ '' Original Request**\<newline>''
         @ ''> \<newline>'' @ join ''\<newline>'' quotedLines)"

text \<open>
  The plan: whether it is approved, its tasks and, in step with them, the sub-tickets
  created for them.
\<close>

record plan_task =
  title :: "string option"
  taskComplexity :: "string option"
  taskType :: "string option"

record plan =
  approved :: bool
  implementationTasks :: "plan_task list"
  implementationIssues :: "nat list"
  testTasks :: "plan_task list"
  testIssues :: "nat list"

text \<open>
  The two \<open>forEach\<close> loops of \<open>buildPlanSection\<close>.  Task \<open>i\<close> reads \<open>issues[i].issueNumber\<close>:
  with fewer issues than tasks that is a \<open>TypeError\<close>.
\<close>

definition noIssueError :: js_error where
  "noIssueError = newError ''Cannot read properties of undefined (reading 'issueNumber')''"

fun taskLines ::
  "(plan_task \<Rightarrow> string) \<Rightarrow> nat \<Rightarrow> plan_task list \<Rightarrow> nat list \<Rightarrow> js_error + string" where
  "taskLines ending i [] issues = Inr []"
| "taskLines ending i (task # tasks) [] = Inl noIssueError"
| "taskLines ending i (task # tasks) (issueNumber # issues) =
     (case taskLines ending (i + 1) tasks issues of
        Inl error \<Rightarrow> Inl error
      | Inr rest \<Rightarrow>
          Inr (toString (i + 1) @ ''. **'' @ interpolate (title task) @ ''** (#''
               @ toString issueNumber @ '') - '' @ ending task @ ''\<newline>'' @ rest))"

definition buildPlanSection :: "plan \<Rightarrow> js_error + string" where
  "buildPlanSection p =
     (let statusText =
            (if approved p then [CHR 0xE2, CHR 0x9C, CHR 0x85] @ '' Approved''
             else [CHR 0xE2, CHR 0x8F, CHR 0xB3] @ '' Awaiting Approval'');
          section0 =
            ''## '' @ [CHR 0xF0, CHR 0x9F, CHR 0x93, CHR 0x8A] @ '' Implementation Plan\<newline>\<newline>''
            @ ''The planning phase has completed. Status: **'' @ statusText @ ''**\<newline>\<newline>''
            @ (if \<not> approved p
               then ''Add label `oc-ralph:approved` to proceed with implementation.\<newline>\<newline>''
               else [])
            @ ''### Implementation Tasks ('' @ toString (length (implementationTasks p))
            @ '')\<newline>''
      in case taskLines (\<lambda>task. interpolate (taskComplexity task) @ '' complexity'') 0
                (implementationTasks p) (implementationIssues p) of
           Inl error \<Rightarrow> Inl error
         | Inr implementationLines \<Rightarrow>
             (case taskLines (\<lambda>task. interpolate (taskType task)) 0
                     (testTasks p) (testIssues p) of
                Inl error \<Rightarrow> Inl error
              | Inr testLines \<Rightarrow>
                  Inr (section0 @ implementationLines
                       @ ''\<newline>### Test Tasks ('' @ toString (length (testTasks p))
                       @ '')\<newline>'' @ testLines)))"

text \<open>
  \<open>build\<close>.  Each argument may be missing; an empty original request or status table is
  falsy, like a missing one.  \<open>planningStatus\<close> is only tested for truth.
\<close>

definition truthy :: "string option \<Rightarrow> bool" where
  "truthy v = (case v of None \<Rightarrow> False | Some s \<Rightarrow> s \<noteq> [])"

definition build ::
  "tech_spec option \<Rightarrow> plan option \<Rightarrow> string option \<Rightarrow> string option \<Rightarrow> bool
     \<Rightarrow> js_error + string" where
  "build spec p originalRequest statusTable planningStatus =
     (let body0 = startMarker @ ''\<newline>''
                  @ ''# '' @ [CHR 0xF0, CHR 0x9F, CHR 0xA4, CHR 0x96]
                  @ '' oc-ralph Orchestration\<newline>\<newline>'';
          body1 = (case spec of None \<Rightarrow> body0 | Some s \<Rightarrow> body0 @ buildSpecSection s);
          body2 = (if truthy originalRequest
                   then body1 @ ''\<newline>---\<newline>\<newline>''
                        @ buildOriginalRequestSection (the originalRequest)
                   else body1)
      in case (case p of
                 None \<Rightarrow> Inr body2
               | Some pl \<Rightarrow>
                   (case buildPlanSection pl of
                      Inl error \<Rightarrow> Inl error
                    | Inr planSection \<Rightarrow> Inr (body2 @ ''\<newline>---\<newline>\<newline>'' @ planSection))) of
           Inl error \<Rightarrow> Inl error
         | Inr body3 \<Rightarrow>
             (let body4 = (if truthy statusTable \<or> planningStatus
                           then body3 @ ''\<newline>---\<newline>\<newline>''
                                @ (if truthy statusTable then the statusTable else [])
                           else body3)
              in Inr (body4 @ ''\<newline>'' @ endMarker)))"



text \<open>
  What \<open>updateStatusTable\<close> keeps of the body in front of the new status table: the body
  up to the heading of its status table; without a heading, the body up to its end marker
  and a line break; without either, the body and a blank line.
\<close>

definition keptFront :: "string \<Rightarrow> string" where
  "keptFront currentBody =
     (case indexOf currentBody statusTableMarker of
        Some startIdx \<Rightarrow> substring currentBody 0 startIdx
      | None \<Rightarrow>
          (case indexOf currentBody endMarker of
             Some endIdx \<Rightarrow> substring currentBody 0 endIdx @ ''\<newline>''
           | None \<Rightarrow> currentBody @ ''\<newline>\<newline>''))"

section \<open>Properties of the state store\<close>

lemma distinct_stateLabels: "distinct stateLabels"
  by (simp add: stateLabels_def)

lemma filter_eq_distinct_le1: "distinct xs \<Longrightarrow> length (filter (\<lambda>s. s = l) xs) \<le> Suc 0"
  by (induction xs) (auto simp: filter_empty_conv)

lemma find_filter_hd: "find P xs = (case filter P xs of [] \<Rightarrow> None | x # _ \<Rightarrow> Some x)"
  by (induction xs) auto

lemma stateLabelsOn_empty_iff:
  "stateLabelsOn labels = [] \<longleftrightarrow> (\<forall>s \<in> set stateLabels. s \<notin> set labels)"
  by (auto simp: stateLabelsOn_def filter_empty_conv)

lemma atMostOne_add:
  assumes "stateLabelsOn labels = []"
  shows "atMostOneStateLabel (labels @ [l])"
proof -
  from assms have none: "\<forall>s \<in> set stateLabels. s \<notin> set labels"
    by (simp add: stateLabelsOn_empty_iff)
  have "filter (\<lambda>s. s \<in> set (labels @ [l])) stateLabels = filter (\<lambda>s. s = l) stateLabels"
    using none by (intro filter_cong) auto
  then show ?thesis
    using filter_eq_distinct_le1 [OF distinct_stateLabels, of l]
    by (simp add: atMostOneStateLabel_def stateLabelsOn_def)
qed

lemma stateLabelsOn_remove_current:
  assumes "atMostOneStateLabel labels"
    and "find (\<lambda>s. s \<in> set labels) stateLabels = Some c"
  shows "stateLabelsOn (removeAll c labels) = []"
proof -
  from assms(2) have "stateLabelsOn labels \<noteq> []" "hd (stateLabelsOn labels) = c"
    by (auto simp: find_filter_hd stateLabelsOn_def split: list.splits)
  with assms(1) have eq: "stateLabelsOn labels = [c]"
    by (cases "stateLabelsOn labels") (auto simp: atMostOneStateLabel_def)
  have "\<forall>s \<in> set stateLabels. s \<notin> set (removeAll c labels)"
  proof
    fix s assume s: "s \<in> set stateLabels"
    show "s \<notin> set (removeAll c labels)"
    proof
      assume "s \<in> set (removeAll c labels)"
      then have "s \<in> set labels" "s \<noteq> c" by auto
      with s have "s \<in> set (stateLabelsOn labels)" by (simp add: stateLabelsOn_def)
      with eq \<open>s \<noteq> c\<close> show False by simp
    qed
  qed
  then show ?thesis by (simp add: stateLabelsOn_empty_iff)
qed

lemma find_None_stateLabelsOn:
  "find (\<lambda>s. s \<in> set labels) stateLabels = None \<Longrightarrow> stateLabelsOn labels = []"
  by (simp add: find_filter_hd stateLabelsOn_def split: list.splits)

lemma transitionTo_preserves:
  assumes "\<forall>n. atMostOneStateLabel (tr n)"
  shows "\<forall>n. atMostOneStateLabel (snd (transitionTo f tr issueNumber newState) n)"
proof
  fix n
  show "atMostOneStateLabel (snd (transitionTo f tr issueNumber newState) n)"
  proof (cases "getCurrentState tr issueNumber")
    case None
    then have "stateLabelsOn (tr issueNumber) = []"
      by (simp add: getCurrentState_def getLabels_def find_None_stateLabelsOn)
    from atMostOne_add [OF this, of newState] assms None show ?thesis
      by (simp add: transitionTo_def addLabel_def)
  next
    case (Some c)
    then have f: "find (\<lambda>s. s \<in> set (tr issueNumber)) stateLabels = Some c"
      by (simp add: getCurrentState_def getLabels_def)
    have a: "atMostOneStateLabel (tr issueNumber)" using assms by simp
    have e: "stateLabelsOn (removeAll c (tr issueNumber)) = []"
      by (rule stateLabelsOn_remove_current [OF a f])
    then have r: "atMostOneStateLabel (removeAll c (tr issueNumber))"
      by (simp add: atMostOneStateLabel_def)
    from atMostOne_add [OF e, of newState] r assms Some show ?thesis
      by (simp add: transitionTo_def addLabel_def removeLabel_def Let_def)
  qed
qed

text \<open>
  Claim C6, as stated, quantifies over every initial label set.  It fails on a ticket that
  starts with two state labels: \<open>transitionTo\<close> removes only the first one that
  \<open>getCurrentState\<close> finds, so the ticket carries the other one and the new one.
\<close>

theorem transitionTo_two_state_labels_counterexample:
  "\<not> atMostOneStateLabel
        (snd (transitionTo NoFault
               ((\<lambda>_. [])(7 := [''oc-ralph:planning'', ''oc-ralph:failed'']))
               7 ''oc-ralph:testing'') 7)"
  by (simp add: transitionTo_def getCurrentState_def getLabels_def stateLabels_def
      addLabel_def removeLabel_def atMostOneStateLabel_def stateLabelsOn_def)

text \<open>
  Claim C6, amended: if every ticket carries at most one state label to begin with, then
  after every sequence of \<open>transitionTo\<close> calls (on any tickets, to any new labels, each
  call completing or stopped by a failing tracker command) every ticket still carries at
  most one state label.
\<close>

theorem transitions_keep_single_state_label:
  assumes "\<forall>n. atMostOneStateLabel (tr n)"
  shows "\<forall>n. atMostOneStateLabel (transitions calls tr n)"
  using assms
proof (induction calls arbitrary: tr)
  case Nil
  then show ?case by simp
next
  case (Cons call calls)
  obtain f issueNumber newState where call: "call = (f, issueNumber, newState)"
    by (cases call) auto
  from Cons.prems have "\<forall>n. atMostOneStateLabel (snd (transitionTo f tr issueNumber newState) n)"
    by (rule transitionTo_preserves)
  from Cons.IH [OF this] show ?case by (simp add: call)
qed

theorem transitions_keep_single_state_label_witness:
  "(\<forall>n. atMostOneStateLabel (((\<lambda>_. [])(7 := [''oc-ralph:planning'', ''bug''])) n))
   \<and> (\<forall>n. atMostOneStateLabel
          (transitions [(NoFault, 7, ''oc-ralph:awaiting-approval''),
                        (AddLabelFails, 7, ''oc-ralph:approved''),
                        (NoFault, 7, ''oc-ralph:failed'')]
             ((\<lambda>_. [])(7 := [''oc-ralph:planning'', ''bug''])) n))"
proof -
  have h: "\<forall>n. atMostOneStateLabel (((\<lambda>_. [])(7 := [''oc-ralph:planning'', ''bug''])) n)"
    by (simp add: atMostOneStateLabel_def stateLabelsOn_def stateLabels_def)
  from transitions_keep_single_state_label [OF h] h show ?thesis by blast
qed

text \<open>
  Claim C9: the state store knows an eleventh state label, \<open>oc-ralph:paused\<close>.  On a
  ticket that carries it and no other state label, \<open>getCurrentState\<close> returns it, and
  \<open>canResume\<close> is false, as for a terminal state.
\<close>

theorem paused_state_is_read_and_refuses_resume:
  assumes "''oc-ralph:paused'' \<in> set (tr n)"
    and "\<forall>s \<in> set stateLabels. s \<in> set (tr n) \<longrightarrow> s = ''oc-ralph:paused''"
  shows "''oc-ralph:paused'' \<in> set stateLabels
         \<and> getCurrentState tr n = Some ''oc-ralph:paused''
         \<and> \<not> canResume tr n"
proof -
  have "filter (\<lambda>s. s \<in> set (tr n)) stateLabels = filter (\<lambda>s. s = ''oc-ralph:paused'') stateLabels"
    using assms by (intro filter_cong) auto
  also have "\<dots> = [''oc-ralph:paused'']" by (simp add: stateLabels_def)
  finally have "getCurrentState tr n = Some ''oc-ralph:paused''"
    by (simp add: getCurrentState_def getLabels_def find_filter_hd)
  then show ?thesis by (simp add: canResume_def resumableStates_def stateLabels_def)
qed

theorem paused_state_is_read_and_refuses_resume_witness:
  "''oc-ralph:paused'' \<in> set (((\<lambda>_. [])(7 := [''bug'', ''oc-ralph:paused''])) 7)
   \<and> getCurrentState ((\<lambda>_. [])(7 := [''bug'', ''oc-ralph:paused''])) 7 = Some ''oc-ralph:paused''
   \<and> \<not> canResume ((\<lambda>_. [])(7 := [''bug'', ''oc-ralph:paused''])) 7"
proof -
  have a: "''oc-ralph:paused'' \<in> set (((\<lambda>_. [])(7 := [''bug'', ''oc-ralph:paused''])) (7::nat))"
    by simp
  have b: "\<forall>s \<in> set stateLabels.
      s \<in> set (((\<lambda>_. [])(7 := [''bug'', ''oc-ralph:paused''])) (7::nat)) \<longrightarrow> s = ''oc-ralph:paused''"
    by (simp add: stateLabels_def)
  from paused_state_is_read_and_refuses_resume
         [of "(\<lambda>_. [])(7 := [''bug'', ''oc-ralph:paused''])" 7, OF a b] a
  show ?thesis by simp
qed

section \<open>Properties of the dependency resolver\<close>

subsection \<open>Sorting a batch\<close>

lemma mset_insertById: "mset (insertById lc a bs) = add_mset a (mset bs)"
  by (induction bs) auto

lemma mset_sortById: "mset (sortById lc batch) = mset batch"
  unfolding sortById_def by (induction batch) (auto simp: mset_insertById)

lemma set_sortById: "set (sortById lc batch) = set batch"
  using mset_sortById [of lc batch] by (metis set_mset_mset)

lemma set_insertById: "set (insertById lc a bs) = insert a (set bs)"
  by (induction bs) auto

lemma sorted_insertById:
  assumes total: "\<forall>x y. lc x y \<le> 0 \<or> lc y x \<le> 0"
    and trans: "\<forall>x y z. lc x y \<le> 0 \<and> lc y z \<le> 0 \<longrightarrow> lc x z \<le> 0"
    and "sorted_wrt (\<lambda>a b. lc (tid a) (tid b) \<le> 0) bs"
  shows "sorted_wrt (\<lambda>a b. lc (tid a) (tid b) \<le> 0) (insertById lc a bs)"
  using assms(3)
proof (induction bs)
  case Nil
  then show ?case by simp
next
  case (Cons b bs)
  from Cons.prems have tail: "sorted_wrt (\<lambda>a b. lc (tid a) (tid b) \<le> 0) bs"
    and above: "\<forall>x \<in> set bs. lc (tid b) (tid x) \<le> 0"
    by simp_all
  show ?case
  proof (cases "lc (tid a) (tid b) \<le> 0")
    case True
    have "\<forall>x \<in> set bs. lc (tid a) (tid x) \<le> 0"
    proof
      fix x assume "x \<in> set bs"
      with above have "lc (tid b) (tid x) \<le> 0" by simp
      with True trans show "lc (tid a) (tid x) \<le> 0" by blast
    qed
    with True Cons.prems show ?thesis by simp
  next
    case False
    with total have ba: "lc (tid b) (tid a) \<le> 0" by blast
    have "sorted_wrt (\<lambda>a b. lc (tid a) (tid b) \<le> 0) (insertById lc a bs)"
      by (rule Cons.IH [OF tail])
    moreover have "\<forall>x \<in> set (insertById lc a bs). lc (tid b) (tid x) \<le> 0"
      using ba above by (simp add: set_insertById)
    ultimately show ?thesis using False by simp
  qed
qed

lemma sorted_sortById:
  assumes "\<forall>x y. lc x y \<le> 0 \<or> lc y x \<le> 0"
    and "\<forall>x y z. lc x y \<le> 0 \<and> lc y z \<le> 0 \<longrightarrow> lc x z \<le> 0"
  shows "sorted_wrt (\<lambda>a b. lc (tid a) (tid b) \<le> 0) (sortById lc batch)"
  unfolding sortById_def
proof (induction batch)
  case Nil
  show ?case by simp
next
  case (Cons a batch)
  from sorted_insertById [OF assms Cons.IH, of a] show ?case by simp
qed

subsection \<open>The graph\<close>

lemma fold_assign_own_other:
  "k \<notin> tid ` set ts \<Longrightarrow>
     own (fold (\<lambda>t g. assign g (tid t) (dependenciesOrEmpty t)) ts g0) k = own g0 k"
  by (induction ts arbitrary: g0) (auto simp: assign_def)

lemma fold_assign_no_own_proto:
  "own g0 ''__proto__'' = None \<Longrightarrow>
     own (fold (\<lambda>t g. assign g (tid t) (dependenciesOrEmpty t)) ts g0) ''__proto__'' = None"
  by (induction ts arbitrary: g0) (auto simp: assign_def)

lemma fold_assign_dom:
  "own g0 ''__proto__'' = None \<Longrightarrow>
     dom (own (fold (\<lambda>t g. assign g (tid t) (dependenciesOrEmpty t)) ts g0))
       = dom (own g0) \<union> (tid ` set ts - {''__proto__''})"
proof (induction ts arbitrary: g0)
  case Nil
  then show ?case by simp
next
  case (Cons u us)
  let ?g1 = "assign g0 (tid u) (dependenciesOrEmpty u)"
  from Cons.prems have p: "own ?g1 ''__proto__'' = None"
    by (simp add: assign_def)
  have d: "dom (own ?g1) = dom (own g0) \<union> ({tid u} - {''__proto__''})"
    using Cons.prems by (auto simp: assign_def)
  from Cons.IH [OF p] d show ?case by auto
qed

lemma fold_assign_prototype_some:
  "''__proto__'' \<in> tid ` set ts \<Longrightarrow> own g0 ''__proto__'' = None \<Longrightarrow>
     prototype (fold (\<lambda>t g. assign g (tid t) (dependenciesOrEmpty t)) ts g0) \<noteq> None"
proof (induction ts arbitrary: g0 rule: rev_induct)
  case Nil
  then show ?case by simp
next
  case (snoc u us)
  let ?g = "fold (\<lambda>t g. assign g (tid t) (dependenciesOrEmpty t)) us g0"
  from snoc.prems(2) have p: "own ?g ''__proto__'' = None"
    by (rule fold_assign_no_own_proto)
  show ?case
  proof (cases "tid u = ''__proto__''")
    case True
    with p show ?thesis by (simp add: assign_def)
  next
    case False
    with snoc.prems(1) have "''__proto__'' \<in> tid ` set us" by auto
    from snoc.IH [OF this snoc.prems(2)] False show ?thesis
      by (simp add: assign_def)
  qed
qed

lemma fold_assign_prototype_other:
  "''__proto__'' \<notin> tid ` set ts \<Longrightarrow>
     prototype (fold (\<lambda>t g. assign g (tid t) (dependenciesOrEmpty t)) ts g0) = prototype g0"
  by (induction ts arbitrary: g0) (auto simp: assign_def)

lemma fold_assign_own_distinct:
  "distinct (map tid ts) \<Longrightarrow> t \<in> set ts \<Longrightarrow> tid t \<noteq> ''__proto__'' \<Longrightarrow>
     own (fold (\<lambda>t g. assign g (tid t) (dependenciesOrEmpty t)) ts g0) (tid t)
       = Some (dependenciesOrEmpty t)"
proof (induction ts arbitrary: g0)
  case Nil
  then show ?case by simp
next
  case (Cons u us)
  show ?case
  proof (cases "t \<in> set us")
    case True
    with Cons show ?thesis by simp
  next
    case False
    with Cons.prems have tu: "t = u" and "tid u \<notin> tid ` set us" by auto
    then have "own (fold (\<lambda>t g. assign g (tid t) (dependenciesOrEmpty t)) us
                 (assign g0 (tid u) (dependenciesOrEmpty u))) (tid u)
               = own (assign g0 (tid u) (dependenciesOrEmpty u)) (tid u)"
      by (intro fold_assign_own_other)
    also have "\<dots> = Some (dependenciesOrEmpty u)"
      using Cons.prems(3) tu by (simp add: assign_def)
    finally show ?thesis using tu by simp
  qed
qed

lemma fold_assign_prototype_distinct:
  "distinct (map tid ts) \<Longrightarrow> t \<in> set ts \<Longrightarrow> tid t = ''__proto__'' \<Longrightarrow>
     own g0 ''__proto__'' = None \<Longrightarrow>
     prototype (fold (\<lambda>t g. assign g (tid t) (dependenciesOrEmpty t)) ts g0)
       = Some (dependenciesOrEmpty t)"
proof (induction ts arbitrary: g0)
  case Nil
  then show ?case by simp
next
  case (Cons u us)
  let ?g1 = "assign g0 (tid u) (dependenciesOrEmpty u)"
  from Cons.prems(4) have p: "own ?g1 ''__proto__'' = None"
    by (simp add: assign_def)
  show ?case
  proof (cases "t \<in> set us")
    case True
    with Cons.prems have "distinct (map tid us)" by simp
    from Cons.IH [OF this True Cons.prems(3) p] show ?thesis by simp
  next
    case False
    with Cons.prems have tu: "t = u" and "''__proto__'' \<notin> tid ` set us" by auto
    then have "prototype (fold (\<lambda>t g. assign g (tid t) (dependenciesOrEmpty t)) us ?g1)
                 = prototype ?g1"
      by (intro fold_assign_prototype_other)
    also have "\<dots> = Some (dependenciesOrEmpty u)"
      using Cons.prems(3,4) tu by (simp add: assign_def)
    finally show ?thesis using tu by simp
  qed
qed

text \<open>
  The own keys of the built graph are the ids other than \<open>__proto__\<close>, and reading the
  graph at the id of a task gives an array: with distinct ids, the task's prerequisites.
\<close>

lemma dom_own_graphOf: "dom (own (graphOf tasks)) = taskIds tasks - {''__proto__''}"
  by (simp add: graphOf_def fold_assign_dom taskIds_def emptyObject_def)

lemma own_graphOf_None:
  "own (graphOf tasks) d = None \<longleftrightarrow> d = ''__proto__'' \<or> d \<notin> taskIds tasks"
proof -
  have "own (graphOf tasks) d = None \<longleftrightarrow> d \<notin> dom (own (graphOf tasks))"
    by (simp add: domIff)
  also have "\<dots> \<longleftrightarrow> d = ''__proto__'' \<or> d \<notin> taskIds tasks"
    unfolding dom_own_graphOf by blast
  finally show ?thesis .
qed

lemma getProperty_graphOf_array:
  assumes "t \<in> set tasks"
  shows "\<exists>deps. getProperty inherited (graphOf tasks) (tid t) = Dependencies deps"
proof (cases "tid t = ''__proto__''")
  case True
  with assms have "''__proto__'' \<in> tid ` set tasks" by force
  then have "prototype (graphOf tasks) \<noteq> None"
    unfolding graphOf_def by (rule fold_assign_prototype_some) (simp add: emptyObject_def)
  then show ?thesis
    using True by (auto simp: getProperty_def split: option.splits)
next
  case False
  with assms have "tid t \<in> dom (own (graphOf tasks))"
    unfolding dom_own_graphOf taskIds_def by blast
  then show ?thesis
    by (auto simp: getProperty_def)
qed

lemma getProperty_graphOf_distinct:
  assumes "distinct (map tid tasks)" and "t \<in> set tasks"
  shows "getProperty inherited (graphOf tasks) (tid t) = Dependencies (dependenciesOrEmpty t)"
proof (cases "tid t = ''__proto__''")
  case True
  have none: "own (graphOf tasks) ''__proto__'' = None"
    by (simp add: own_graphOf_None)
  have "prototype (graphOf tasks) = Some (dependenciesOrEmpty t)"
    unfolding graphOf_def
    by (rule fold_assign_prototype_distinct [OF assms True]) (simp add: emptyObject_def)
  with none True show ?thesis
    by (simp add: getProperty_def)
next
  case False
  have "own (graphOf tasks) (tid t) = Some (dependenciesOrEmpty t)"
    unfolding graphOf_def by (rule fold_assign_own_distinct [OF assms False])
  then show ?thesis
    by (simp add: getProperty_def)
qed

lemma graph_of_distinct_tasks:
  assumes "distinct (map tid tasks)"
  shows "\<forall>t \<in> set tasks. graphDeps inherited (graphOf tasks) (tid t) = dependenciesOrEmpty t"
  using assms by (simp add: graphDeps_def getProperty_graphOf_distinct)

subsection \<open>The validation pass\<close>

lemma checkDependencies_method_shadowed:
  "own g ''hasOwnProperty'' \<noteq> None \<Longrightarrow>
     checkDependencies g a deps
       = (if deps = [] then None
          else Some (TypeError ''graph.hasOwnProperty is not a function''))"
  by (cases deps) (auto simp: hasOwnProperty_def)

lemma checkDependencies_None:
  "own g ''hasOwnProperty'' = None \<Longrightarrow>
     checkDependencies g a deps = None \<longleftrightarrow> (\<forall>d \<in> set deps. own g d \<noteq> None)"
  by (induction deps) (auto simp: hasOwnProperty_def)

lemma checkDependencies_Some:
  "own g ''hasOwnProperty'' = None \<Longrightarrow> checkDependencies g a deps = Some err \<Longrightarrow>
     \<exists>d \<in> set deps. own g d = None \<and> err = InvalidDependency a d"
  by (induction deps) (auto simp: hasOwnProperty_def split: if_splits)

lemma validateDependencies_None:
  assumes "\<forall>t \<in> set ts. getProperty inherited g (tid t) = Dependencies (D t)"
    and "\<forall>t \<in> set ts. checkDependencies g (tid t) (D t) = None"
  shows "validateDependencies inherited g ts = None"
  using assms by (induction ts) simp_all

lemma validateDependencies_Some:
  assumes "\<forall>t \<in> set ts. getProperty inherited g (tid t) = Dependencies (D t)"
    and "own g ''hasOwnProperty'' = None"
    and "\<exists>t \<in> set ts. \<exists>d \<in> set (D t). own g d = None"
  shows "\<exists>t \<in> set ts. \<exists>d \<in> set (D t). own g d = None
           \<and> validateDependencies inherited g ts = Some (InvalidDependency (tid t) d)"
  using assms(1,3)
proof (induction ts)
  case Nil
  then show ?case by simp
next
  case (Cons u us)
  from Cons.prems(1) have get: "getProperty inherited g (tid u) = Dependencies (D u)"
    by simp
  show ?case
  proof (cases "checkDependencies g (tid u) (D u)")
    case None
    with assms(2) have "\<forall>d \<in> set (D u). own g d \<noteq> None"
      by (simp add: checkDependencies_None)
    with Cons.prems(2) have "\<exists>t \<in> set us. \<exists>d \<in> set (D t). own g d = None" by auto
    moreover from Cons.prems(1)
    have "\<forall>t \<in> set us. getProperty inherited g (tid t) = Dependencies (D t)" by simp
    ultimately obtain t d where "t \<in> set us" "d \<in> set (D t)" "own g d = None"
      "validateDependencies inherited g us = Some (InvalidDependency (tid t) d)"
      using Cons.IH by blast
    with get None show ?thesis by auto
  next
    case (Some err)
    from checkDependencies_Some [OF assms(2) Some]
    obtain d where "d \<in> set (D u)" "own g d = None" "err = InvalidDependency (tid u) d"
      by blast
    with get Some show ?thesis by auto
  qed
qed

lemma buildDependencyGraph_Inr:
  "buildDependencyGraph inherited tasks = Inr g \<Longrightarrow> g = graphOf tasks"
  by (simp add: buildDependencyGraph_def Let_def split: option.splits)

subsection \<open>The filter of the loop\<close>

lemma filterThrowing_Inr:
  "filterThrowing p xs = Inr ys \<Longrightarrow>
     (\<forall>x \<in> set xs. \<exists>b. p x = Inr b) \<and> ys = filter (\<lambda>x. p x = Inr True) xs"
  by (induction xs arbitrary: ys) (auto split: sum.splits if_splits)

lemma filterThrowing_total:
  "\<forall>x \<in> set xs. \<exists>b. p x = Inr b \<Longrightarrow> \<exists>ys. filterThrowing p xs = Inr ys"
  by (induction xs) (auto split: sum.splits)

lemma ready_Inr:
  "ready inherited g c t = Inr b \<Longrightarrow>
     b = (tid t \<notin> c \<and> (\<forall>d \<in> set (graphDeps inherited g (tid t)). d \<in> c))"
  by (auto simp: ready_def graphDeps_def split: if_splits property.splits)

lemma nextBatch_Inr:
  assumes "nextBatch inherited g c tasks = Inr nb"
  shows "nb = readyTasks (graphDeps inherited g) c tasks"
proof -
  from assms have f: "filterThrowing (ready inherited g c) tasks = Inr nb"
    by (simp add: nextBatch_def)
  from filterThrowing_Inr [OF f]
  have total: "\<forall>t \<in> set tasks. \<exists>b. ready inherited g c t = Inr b"
    and nb: "nb = filter (\<lambda>t. ready inherited g c t = Inr True) tasks"
    by blast+
  have "filter (\<lambda>t. ready inherited g c t = Inr True) tasks
      = filter (\<lambda>t. tid t \<notin> c \<and> (\<forall>d \<in> set (graphDeps inherited g (tid t)). d \<in> c)) tasks"
  proof (rule filter_cong [OF refl])
    fix t assume "t \<in> set tasks"
    with total obtain b where b: "ready inherited g c t = Inr b" by blast
    from ready_Inr [OF b] b
    show "(ready inherited g c t = Inr True)
        = (tid t \<notin> c \<and> (\<forall>d \<in> set (graphDeps inherited g (tid t)). d \<in> c))"
      by simp
  qed
  with nb show ?thesis by (simp add: readyTasks_def)
qed

lemma nextBatch_arrays:
  assumes "\<forall>t \<in> set tasks. \<exists>deps. getProperty inherited g (tid t) = Dependencies deps"
  shows "\<exists>nb. nextBatch inherited g c tasks = Inr nb"
  unfolding nextBatch_def
proof (rule filterThrowing_total, rule ballI)
  fix t assume "t \<in> set tasks"
  with assms obtain deps where "getProperty inherited g (tid t) = Dependencies deps" by blast
  then have "ready inherited g c t
      = Inr (tid t \<notin> c \<and> (\<forall>depId \<in> set deps. depId \<in> c))"
    by (simp add: ready_def)
  then show "\<exists>b. ready inherited g c t = Inr b" ..
qed

lemma firstBatch_arrays:
  assumes "\<forall>t \<in> set tasks. \<exists>deps. getProperty inherited g (tid t) = Dependencies deps"
  shows "firstBatch inherited g tasks = readyTasks (graphDeps inherited g) {} tasks"
  unfolding firstBatch_def readyTasks_def
proof (rule filter_cong [OF refl])
  fix t assume "t \<in> set tasks"
  with assms obtain deps where "getProperty inherited g (tid t) = Dependencies deps" by blast
  then show "(case getProperty inherited g (tid t) of
                Missing \<Rightarrow> True
              | Dependencies deps \<Rightarrow> length deps = 0
              | Builtin truthiness len \<Rightarrow> \<not> truthiness \<or> len = Some 0)
      = (tid t \<notin> {} \<and> (\<forall>depId \<in> set (graphDeps inherited g (tid t)). depId \<in> {}))"
    by (simp add: graphDeps_def)
qed

subsection \<open>Invariants of the loop\<close>

lemma in_readyTasks:
  "t \<in> set (readyTasks deps c tasks) \<longleftrightarrow>
     t \<in> set tasks \<and> tid t \<notin> c \<and> (\<forall>d \<in> set (deps (tid t)). d \<in> c)"
  by (auto simp: readyTasks_def)

lemma mset_filter_disj:
  "\<forall>x \<in> set xs. \<not> (P x \<and> Q x) \<Longrightarrow>
     mset (filter (\<lambda>x. P x \<or> Q x) xs) = mset (filter P xs) + mset (filter Q xs)"
  by (induction xs) auto

lemma id_in_readyTasks:
  assumes "t \<in> set tasks"
  shows "tid t \<in> tid ` set (readyTasks deps c tasks) \<longleftrightarrow>
           tid t \<notin> c \<and> (\<forall>d \<in> set (deps (tid t)). d \<in> c)"
proof
  assume "tid t \<in> tid ` set (readyTasks deps c tasks)"
  then obtain u where u: "u \<in> set (readyTasks deps c tasks)" and eq: "tid t = tid u"
    by (rule imageE)
  from u have "tid u \<notin> c \<and> (\<forall>d \<in> set (deps (tid u)). d \<in> c)"
    using in_readyTasks [of u deps c tasks] by blast
  with eq show "tid t \<notin> c \<and> (\<forall>d \<in> set (deps (tid t)). d \<in> c)"
    by simp
next
  assume "tid t \<notin> c \<and> (\<forall>d \<in> set (deps (tid t)). d \<in> c)"
  with assms have "t \<in> set (readyTasks deps c tasks)"
    using in_readyTasks [of t deps c tasks] by blast
  then show "tid t \<in> tid ` set (readyTasks deps c tasks)"
    by (rule imageI)
qed

lemma mset_completed_step:
  "mset (filter (\<lambda>t. tid t \<in> c \<union> tid ` set (readyTasks deps c tasks)) tasks)
     = mset (filter (\<lambda>t. tid t \<in> c) tasks) + mset (readyTasks deps c tasks)"
proof -
  have "filter (\<lambda>t. tid t \<in> c \<union> tid ` set (readyTasks deps c tasks)) tasks
      = filter (\<lambda>t. tid t \<in> c \<or> (tid t \<notin> c \<and> (\<forall>d \<in> set (deps (tid t)). d \<in> c))) tasks"
  proof (rule filter_cong [OF refl])
    fix t assume "t \<in> set tasks"
    from id_in_readyTasks [OF this, of deps c]
    show "(tid t \<in> c \<union> tid ` set (readyTasks deps c tasks))
        = (tid t \<in> c \<or> (tid t \<notin> c \<and> (\<forall>d \<in> set (deps (tid t)). d \<in> c)))"
      by (simp only: Un_iff)
  qed
  also have "mset \<dots> = mset (filter (\<lambda>t. tid t \<in> c) tasks)
      + mset (filter (\<lambda>t. tid t \<notin> c \<and> (\<forall>d \<in> set (deps (tid t)). d \<in> c)) tasks)"
    by (rule mset_filter_disj) simp
  finally show ?thesis by (simp only: readyTasks_def)
qed

lemma batchesOrdered_snoc:
  assumes "batchesOrdered deps bs"
    and "\<forall>t \<in> set b. \<forall>d \<in> set (deps (tid t)). d \<in> tid ` set (concat bs)"
  shows "batchesOrdered deps (bs @ [b])"
  unfolding batchesOrdered_def
proof (intro allI impI ballI)
  fix i t d
  assume i: "i < length (bs @ [b])" and t: "t \<in> set ((bs @ [b]) ! i)"
    and d: "d \<in> set (deps (tid t))"
  show "\<exists>j < i. d \<in> tid ` set ((bs @ [b]) ! j)"
  proof (cases "i < length bs")
    case True
    with t have "t \<in> set (bs ! i)" by (simp add: nth_append)
    with assms(1) True d obtain j where j: "j < i" and dj: "d \<in> tid ` set (bs ! j)"
      unfolding batchesOrdered_def by blast
    from j True have "(bs @ [b]) ! j = bs ! j" by (simp add: nth_append)
    with dj have "d \<in> tid ` set ((bs @ [b]) ! j)" by simp
    with j show ?thesis by blast
  next
    case False
    with i have eq: "i = length bs" by simp
    with t have "t \<in> set b" by simp
    with assms(2) d have "d \<in> tid ` set (concat bs)" by blast
    then obtain u b' where b': "b' \<in> set bs" and u: "u \<in> set b'" and du: "d = tid u"
      by auto
    from b' obtain j where j: "j < length bs" and bj: "bs ! j = b'"
      by (auto simp: in_set_conv_nth)
    from j have "(bs @ [b]) ! j = bs ! j" by (simp add: nth_append)
    with bj u du have "d \<in> tid ` set ((bs @ [b]) ! j)" by simp
    with j eq show ?thesis by blast
  qed
qed

text \<open>One turn of the loop that goes on to return.\<close>

lemma batchLoop_turn:
  assumes "batchLoop lc inherited tasks g bs c cur = Inr (B, C)" and "cur \<noteq> []"
  shows "\<exists>nb. nextBatch inherited g (c \<union> tid ` set cur) tasks = Inr nb
           \<and> batchLoop lc inherited tasks g (bs @ [sortById lc cur]) (c \<union> tid ` set cur) nb
               = Inr (B, C)"
  using assms
  by (subst (asm) batchLoop.simps) (simp add: Let_def split: sum.splits)

lemma batchLoop_invariant:
  assumes "batchLoop lc inherited tasks g bs c cur = Inr (B, C)"
    and "cur = readyTasks (graphDeps inherited g) c tasks"
    and "c = tid ` set (concat bs)"
    and "mset (concat bs) = mset (filter (\<lambda>t. tid t \<in> c) tasks)"
    and "batchesOrdered (graphDeps inherited g) bs"
  shows "readyTasks (graphDeps inherited g) C tasks = [] \<and> C = tid ` set (concat B)
         \<and> mset (concat B) = mset (filter (\<lambda>t. tid t \<in> C) tasks)
         \<and> batchesOrdered (graphDeps inherited g) B"
  using assms
proof (induction lc inherited tasks g bs c cur rule: batchLoop.induct)
  case (1 lc inherited tasks g bs c cur)
  show ?case
  proof (cases "cur = []")
    case True
    with "1.prems"(1) have "B = bs" "C = c"
      by (subst (asm) batchLoop.simps, simp)+
    with True "1.prems"(2-5) show ?thesis by simp
  next
    case False
    let ?sorted = "sortById lc cur"
    let ?bs = "bs @ [?sorted]"
    let ?c = "c \<union> tid ` set cur"
    from batchLoop_turn [OF "1.prems"(1) False]
    obtain nb where nb: "nextBatch inherited g ?c tasks = Inr nb"
      and run: "batchLoop lc inherited tasks g ?bs ?c nb = Inr (B, C)"
      by blast
    have i0: "nb = readyTasks (graphDeps inherited g) ?c tasks"
      using nb by (rule nextBatch_Inr)
    have i1: "?c = tid ` set (concat ?bs)"
      using "1.prems"(3) by (simp add: set_sortById image_Un)
    have i2: "mset (concat ?bs) = mset (filter (\<lambda>t. tid t \<in> ?c) tasks)"
      using "1.prems"(2,4) mset_completed_step [of c "graphDeps inherited g" tasks]
      by (simp add: mset_sortById)
    have "\<forall>t \<in> set ?sorted. \<forall>d \<in> set (graphDeps inherited g (tid t)). d \<in> tid ` set (concat bs)"
      using "1.prems"(2,3) by (simp add: set_sortById in_readyTasks)
    with "1.prems"(5) have i3: "batchesOrdered (graphDeps inherited g) ?bs"
      by (rule batchesOrdered_snoc)
    show ?thesis
      by (rule "1.IH" [OF False refl refl refl nb run i0 i1 i2 i3])
  qed
qed

lemma batchLoop_sorted:
  assumes "batchLoop lc inherited tasks g bs c cur = Inr (B, C)"
    and "\<forall>b \<in> set bs. sorted_wrt (\<lambda>a b. lc (tid a) (tid b) \<le> 0) b"
    and total: "\<forall>x y. lc x y \<le> 0 \<or> lc y x \<le> 0"
    and trans: "\<forall>x y z. lc x y \<le> 0 \<and> lc y z \<le> 0 \<longrightarrow> lc x z \<le> 0"
  shows "\<forall>b \<in> set B. sorted_wrt (\<lambda>a b. lc (tid a) (tid b) \<le> 0) b"
  using assms
proof (induction lc inherited tasks g bs c cur rule: batchLoop.induct)
  case (1 lc inherited tasks g bs c cur)
  show ?case
  proof (cases "cur = []")
    case True
    with "1.prems"(1) have "B = bs"
      by (subst (asm) batchLoop.simps) simp
    with "1.prems"(2) show ?thesis by simp
  next
    case False
    let ?sorted = "sortById lc cur"
    let ?bs = "bs @ [?sorted]"
    let ?c = "c \<union> tid ` set cur"
    from batchLoop_turn [OF "1.prems"(1) False]
    obtain nb where nb: "nextBatch inherited g ?c tasks = Inr nb"
      and run: "batchLoop lc inherited tasks g ?bs ?c nb = Inr (B, C)"
      by blast
    have i4: "\<forall>b \<in> set ?bs. sorted_wrt (\<lambda>a b. lc (tid a) (tid b) \<le> 0) b"
      using "1.prems"(2) sorted_sortById [OF "1.prems"(3,4)] by simp
    show ?thesis
      by (rule "1.IH" [OF False refl refl refl nb run i4 "1.prems"(3,4)])
  qed
qed

text \<open>The completed ids are ids of tasks, whatever the graph.\<close>

lemma batchLoop_completed_subset:
  assumes "batchLoop lc inherited tasks g bs c cur = Inr (B, C)"
    and "c \<subseteq> taskIds tasks" and "set cur \<subseteq> set tasks"
  shows "C \<subseteq> taskIds tasks"
  using assms
proof (induction lc inherited tasks g bs c cur rule: batchLoop.induct)
  case (1 lc inherited tasks g bs c cur)
  show ?case
  proof (cases "cur = []")
    case True
    with "1.prems"(1) have "C = c"
      by (subst (asm) batchLoop.simps) simp
    with "1.prems"(2) show ?thesis by simp
  next
    case False
    let ?bs = "bs @ [sortById lc cur]"
    let ?c = "c \<union> tid ` set cur"
    from batchLoop_turn [OF "1.prems"(1) False]
    obtain nb where nb: "nextBatch inherited g ?c tasks = Inr nb"
      and run: "batchLoop lc inherited tasks g ?bs ?c nb = Inr (B, C)"
      by blast
    have c: "?c \<subseteq> taskIds tasks"
      using "1.prems"(2,3) unfolding taskIds_def by blast
    have "nb = readyTasks (graphDeps inherited g) ?c tasks"
      using nb by (rule nextBatch_Inr)
    then have s: "set nb \<subseteq> set tasks"
      by (auto simp: readyTasks_def)
    show ?thesis
      by (rule "1.IH" [OF False refl refl refl nb run c s])
  qed
qed

text \<open>On a graph that holds an array for the id of every task, the loop returns.\<close>

lemma batchLoop_returns:
  assumes "\<forall>t \<in> set tasks. \<exists>deps. getProperty inherited g (tid t) = Dependencies deps"
  shows "\<exists>B C. batchLoop lc inherited tasks g bs c cur = Inr (B, C)"
  using assms
proof (induction lc inherited tasks g bs c cur rule: batchLoop.induct)
  case (1 lc inherited tasks g bs c cur)
  show ?case
  proof (cases "cur = []")
    case True
    then show ?thesis by (subst batchLoop.simps) simp
  next
    case False
    let ?bs = "bs @ [sortById lc cur]"
    let ?c = "c \<union> tid ` set cur"
    from nextBatch_arrays [OF "1.prems"]
    obtain nb where nb: "nextBatch inherited g ?c tasks = Inr nb" by blast
    from "1.IH" [OF False refl refl refl nb "1.prems"]
    obtain B C where "batchLoop lc inherited tasks g ?bs ?c nb = Inr (B, C)" by blast
    with False nb show ?thesis
      by (subst batchLoop.simps) (simp add: Let_def)
  qed
qed

text \<open>What \<open>resolveBatches\<close> computes, in terms of the loop's result.\<close>

lemma resolveBatches_loop:
  assumes "batchLoop lc inherited tasks g [] {} (firstBatch inherited g tasks) = Inr (B, C)"
  shows "resolveBatches lc inherited tasks g =
           (if card C \<noteq> length tasks
            then Inl (CyclicDependency (map tid (filter (\<lambda>t. tid t \<notin> C) tasks)))
            else Inr B)"
  using assms by (simp add: resolveBatches_def)

lemma loop_completed_subset:
  assumes "batchLoop lc inherited tasks g [] {} (firstBatch inherited g tasks) = Inr (B, C)"
  shows "C \<subseteq> taskIds tasks"
  by (rule batchLoop_completed_subset [OF assms]) (auto simp: firstBatch_def)

lemma loop_result:
  assumes "batchLoop lc inherited tasks g [] {} (firstBatch inherited g tasks) = Inr (B, C)"
    and "\<forall>t \<in> set tasks. \<exists>deps. getProperty inherited g (tid t) = Dependencies deps"
  shows "readyTasks (graphDeps inherited g) C tasks = []" and "C = tid ` set (concat B)"
    and "mset (concat B) = mset (filter (\<lambda>t. tid t \<in> C) tasks)"
    and "batchesOrdered (graphDeps inherited g) B"
proof -
  have inv: "readyTasks (graphDeps inherited g) C tasks = [] \<and> C = tid ` set (concat B)
         \<and> mset (concat B) = mset (filter (\<lambda>t. tid t \<in> C) tasks)
         \<and> batchesOrdered (graphDeps inherited g) B"
    by (rule batchLoop_invariant [OF assms(1) firstBatch_arrays [OF assms(2)]])
       (simp_all add: batchesOrdered_def)
  then show "readyTasks (graphDeps inherited g) C tasks = []" and "C = tid ` set (concat B)"
    and "mset (concat B) = mset (filter (\<lambda>t. tid t \<in> C) tasks)"
    and "batchesOrdered (graphDeps inherited g) B"
    by blast+
qed

lemma in_dependencyEdges:
  "(a, d) \<in> set (dependencyEdges tasks) \<longleftrightarrow>
     (\<exists>t \<in> set tasks. a = tid t \<and> d \<in> set (dependenciesOrEmpty t))"
  by (auto simp: dependencyEdges_def)

lemma acyclic_all_scheduled:
  assumes stuck: "readyTasks deps C tasks = []"
    and acyc: "acyclic (set (dependencyEdges tasks))"
    and deps: "\<forall>t \<in> set tasks. deps (tid t) = dependenciesOrEmpty t"
    and valid: "\<forall>t \<in> set tasks. \<forall>d \<in> set (dependenciesOrEmpty t). d \<in> taskIds tasks"
  shows "taskIds tasks \<subseteq> C"
proof (rule ccontr)
  assume "\<not> taskIds tasks \<subseteq> C"
  then obtain z0 where z0: "z0 \<in> taskIds tasks - C" by blast
  have "wf ((set (dependencyEdges tasks))\<inverse>)"
    using acyc by (intro finite_acyclic_wf_converse) simp_all
  from wfE_min [OF this z0]
  obtain z where z: "z \<in> taskIds tasks - C"
    and min: "\<And>y. (y, z) \<in> (set (dependencyEdges tasks))\<inverse> \<Longrightarrow> y \<notin> taskIds tasks - C"
    by blast
  from z obtain t where t: "t \<in> set tasks" and zt: "z = tid t" and nc: "tid t \<notin> C"
    unfolding taskIds_def by blast
  have "\<forall>d \<in> set (deps (tid t)). d \<in> C"
  proof
    fix d assume "d \<in> set (deps (tid t))"
    with deps t have d: "d \<in> set (dependenciesOrEmpty t)" by simp
    with t zt have "(z, d) \<in> set (dependencyEdges tasks)"
      unfolding in_dependencyEdges by blast
    then have "d \<notin> taskIds tasks - C" using min by blast
    moreover from valid t d have "d \<in> taskIds tasks" by blast
    ultimately show "d \<in> C" by blast
  qed
  with t nc have "t \<in> set (readyTasks deps C tasks)"
    unfolding in_readyTasks by blast
  with stuck show False by simp
qed

lemma ordered_batches_acyclic:
  assumes ord: "batchesOrdered deps B"
    and all: "taskIds tasks \<subseteq> tid ` set (concat B)"
    and deps: "\<forall>t \<in> set tasks. deps (tid t) = dependenciesOrEmpty t"
  shows "acyclic (set (dependencyEdges tasks))"
proof -
  define rank where "rank x = (LEAST i. i < length B \<and> x \<in> tid ` set (B ! i))" for x
  have "\<And>a d. (a, d) \<in> set (dependencyEdges tasks) \<Longrightarrow> rank d < rank a"
  proof -
    fix a d assume "(a, d) \<in> set (dependencyEdges tasks)"
    then obtain t where t: "t \<in> set tasks" and a: "a = tid t"
      and d: "d \<in> set (dependenciesOrEmpty t)"
      unfolding in_dependencyEdges by blast
    from t all have "tid t \<in> tid ` set (concat B)" unfolding taskIds_def by blast
    then obtain b where "b \<in> set B" "tid t \<in> tid ` set b" by auto
    then obtain i where "i < length B \<and> tid t \<in> tid ` set (B ! i)"
      by (auto simp: in_set_conv_nth)
    then have "rank a < length B \<and> tid t \<in> tid ` set (B ! rank a)"
      unfolding rank_def a by (rule LeastI)
    then obtain u where ra: "rank a < length B" and u: "u \<in> set (B ! rank a)"
      and ut: "tid u = tid t" by auto
    from d deps t ut have "d \<in> set (deps (tid u))" by simp
    with ord ra u obtain j where j: "j < rank a" and dj: "d \<in> tid ` set (B ! j)"
      unfolding batchesOrdered_def by blast
    from j ra dj have "j < length B \<and> d \<in> tid ` set (B ! j)" by simp
    then have "rank d \<le> j" unfolding rank_def by (rule Least_le)
    with j show "rank d < rank a" by simp
  qed
  then show ?thesis by (rule acyclicI_order)
qed

lemma card_completed_less:
  assumes "C \<subseteq> taskIds tasks" and "t \<in> set tasks" and "tid t \<notin> C"
  shows "card C \<noteq> length tasks"
proof -
  from assms have "C \<subset> taskIds tasks" unfolding taskIds_def by blast
  then have "card C < card (taskIds tasks)"
    by (intro psubset_card_mono) (simp_all add: taskIds_def)
  also have "\<dots> \<le> length tasks"
    unfolding taskIds_def using card_length [of "map tid tasks"] by simp
  finally show ?thesis by simp
qed

lemma no_edges_acyclic: "acyclic {}"
  by (simp add: acyclic_def)

lemma codeUnitCompare_le: "codeUnitCompare a b \<le> 0 \<longleftrightarrow> a \<le> b"
  by (auto simp: codeUnitCompare_def)

subsection \<open>Batches of a valid input\<close>

text \<open>
  Claim C1, amended.  For every list of tasks

  \<^item> whose ids are pairwise distinct,
  \<^item> whose prerequisite ids all belong to the list, none of them being \<open>__proto__\<close>,
  \<^item> in which no task has the id \<open>hasOwnProperty\<close>, unless no task has a prerequisite,
  \<^item> and whose dependency relation is acyclic,

  the graph is built and \<open>resolveBatches\<close> returns batches that partition the input (the
  batches, concatenated, are a permutation of the tasks, without repetition), every
  prerequisite of a task in batch \<open>i\<close> is the id of a task in some batch \<open>j < i\<close>, and
  every batch is sorted by id under the comparison \<open>localeCompare\<close> that the sort is
  given, provided that comparison is total and transitive.  This holds whatever the
  object inherits from the runtime's prototypes.
\<close>

theorem resolveBatches_partitions_in_dependency_order:
  assumes ids: "distinct (map tid tasks)"
    and valid: "\<forall>t \<in> set tasks. \<forall>d \<in> set (dependenciesOrEmpty t). d \<in> taskIds tasks"
    and proto: "\<forall>t \<in> set tasks. ''__proto__'' \<notin> set (dependenciesOrEmpty t)"
    and shadow: "''hasOwnProperty'' \<in> taskIds tasks \<longrightarrow>
                   (\<forall>t \<in> set tasks. dependenciesOrEmpty t = [])"
    and acyc: "acyclic (set (dependencyEdges tasks))"
    and total: "\<forall>x y. localeCompare x y \<le> 0 \<or> localeCompare y x \<le> 0"
    and trans: "\<forall>x y z. localeCompare x y \<le> 0 \<and> localeCompare y z \<le> 0 \<longrightarrow> localeCompare x z \<le> 0"
  shows "\<exists>g batches.
           buildDependencyGraph inherited tasks = Inr g
           \<and> resolveBatches localeCompare inherited tasks g = Inr batches
           \<and> mset (concat batches) = mset tasks
           \<and> distinct (concat batches)
           \<and> (\<forall>i < length batches. \<forall>t \<in> set (batches ! i). \<forall>d \<in> set (dependenciesOrEmpty t).
                 \<exists>j < i. d \<in> tid ` set (batches ! j))
           \<and> (\<forall>b \<in> set batches. sorted_wrt (\<lambda>a b. localeCompare (tid a) (tid b) \<le> 0) b)"
proof -
  let ?g = "graphOf tasks"
  let ?deps = "graphDeps inherited ?g"
  have get: "\<forall>t \<in> set tasks.
               getProperty inherited ?g (tid t) = Dependencies (dependenciesOrEmpty t)"
    using ids by (simp add: getProperty_graphOf_distinct)
  then have arrays: "\<forall>t \<in> set tasks. \<exists>deps. getProperty inherited ?g (tid t) = Dependencies deps"
    by blast
  have deps: "\<forall>t \<in> set tasks. ?deps (tid t) = dependenciesOrEmpty t"
    by (rule graph_of_distinct_tasks [OF ids])
  have check: "\<forall>t \<in> set tasks. checkDependencies ?g (tid t) (dependenciesOrEmpty t) = None"
  proof
    fix t assume t: "t \<in> set tasks"
    show "checkDependencies ?g (tid t) (dependenciesOrEmpty t) = None"
    proof (cases "own ?g ''hasOwnProperty'' = None")
      case True
      have "\<forall>d \<in> set (dependenciesOrEmpty t). own ?g d \<noteq> None"
      proof
        fix d assume d: "d \<in> set (dependenciesOrEmpty t)"
        with valid t have "d \<in> taskIds tasks" by blast
        moreover from proto t d have "d \<noteq> ''__proto__''" by blast
        ultimately show "own ?g d \<noteq> None" by (simp add: own_graphOf_None)
      qed
      with True show ?thesis by (simp add: checkDependencies_None)
    next
      case False
      then have "''hasOwnProperty'' \<in> taskIds tasks"
        by (simp add: own_graphOf_None)
      with shadow t have "dependenciesOrEmpty t = []" by blast
      then show ?thesis by simp
    qed
  qed
  have "validateDependencies inherited ?g tasks = None"
    using get check by (rule validateDependencies_None)
  then have build: "buildDependencyGraph inherited tasks = Inr ?g"
    by (simp add: buildDependencyGraph_def)
  from batchLoop_returns [OF arrays]
  obtain B C where
    loop: "batchLoop localeCompare inherited tasks ?g [] {} (firstBatch inherited ?g tasks) = Inr (B, C)"
    by blast
  note res = loop_result [OF loop arrays]
  have "taskIds tasks \<subseteq> C"
    by (rule acyclic_all_scheduled [OF res(1) acyc deps valid])
  with loop_completed_subset [OF loop] have C: "C = taskIds tasks" by blast
  have "card C = length tasks"
    unfolding C taskIds_def using distinct_card [OF ids] by simp
  with resolveBatches_loop [OF loop]
  have resolve: "resolveBatches localeCompare inherited tasks ?g = Inr B" by simp
  have "filter (\<lambda>t. tid t \<in> C) tasks = tasks"
    unfolding C taskIds_def by (simp add: filter_id_conv)
  with res(3) have perm: "mset (concat B) = mset tasks" by simp
  from ids have "distinct tasks" by (rule distinct_map [THEN iffD1, THEN conjunct1])
  with perm have dist: "distinct (concat B)"
    by (metis mset_eq_imp_distinct_iff)
  from perm have sets: "set (concat B) = set tasks" by (rule mset_eq_setD)
  have order: "\<forall>i < length B. \<forall>t \<in> set (B ! i). \<forall>d \<in> set (dependenciesOrEmpty t).
                 \<exists>j < i. d \<in> tid ` set (B ! j)"
  proof (intro allI impI ballI)
    fix i t d
    assume i: "i < length B" and t: "t \<in> set (B ! i)" and d: "d \<in> set (dependenciesOrEmpty t)"
    from i have "B ! i \<in> set B" by (rule nth_mem)
    with t have "t \<in> set (concat B)" by auto
    with sets deps d have "d \<in> set (?deps (tid t))" by simp
    with res(4) i t show "\<exists>j < i. d \<in> tid ` set (B ! j)"
      unfolding batchesOrdered_def by blast
  qed
  have sorted: "\<forall>b \<in> set B. sorted_wrt (\<lambda>a b. localeCompare (tid a) (tid b) \<le> 0) b"
    by (rule batchLoop_sorted [OF loop _ total trans]) simp
  from build resolve perm dist order sorted show ?thesis by blast
qed

text \<open>
  The theorem on three tasks, one of them with the id \<open>__proto__\<close>: \<open>b\<close> waits for \<open>a\<close>,
  the others form the first batch.
\<close>

theorem resolveBatches_partitions_in_dependency_order_witness:
  "\<forall>inherited.
     resolveBatches codeUnitCompare inherited
        [\<lparr>tid = ''b'', dependencies = Some [''a'']\<rparr>,
         \<lparr>tid = ''__proto__'', dependencies = None\<rparr>,
         \<lparr>tid = ''a'', dependencies = Some []\<rparr>]
        (graphOf
          [\<lparr>tid = ''b'', dependencies = Some [''a'']\<rparr>,
           \<lparr>tid = ''__proto__'', dependencies = None\<rparr>,
           \<lparr>tid = ''a'', dependencies = Some []\<rparr>])
      = Inr [[\<lparr>tid = ''__proto__'', dependencies = None\<rparr>, \<lparr>tid = ''a'', dependencies = Some []\<rparr>],
             [\<lparr>tid = ''b'', dependencies = Some [''a'']\<rparr>]]
     \<and> (\<exists>g batches.
           buildDependencyGraph inherited
             [\<lparr>tid = ''b'', dependencies = Some [''a'']\<rparr>,
              \<lparr>tid = ''__proto__'', dependencies = None\<rparr>,
              \<lparr>tid = ''a'', dependencies = Some []\<rparr>] = Inr g
           \<and> resolveBatches codeUnitCompare inherited
                [\<lparr>tid = ''b'', dependencies = Some [''a'']\<rparr>,
                 \<lparr>tid = ''__proto__'', dependencies = None\<rparr>,
                 \<lparr>tid = ''a'', dependencies = Some []\<rparr>] g = Inr batches
           \<and> mset (concat batches)
                = mset [\<lparr>tid = ''b'', dependencies = Some [''a'']\<rparr>,
                        \<lparr>tid = ''__proto__'', dependencies = None\<rparr>,
                        \<lparr>tid = ''a'', dependencies = Some []\<rparr>]
           \<and> distinct (concat batches))"
proof
  fix inherited :: prototypes
  let ?T = "[\<lparr>tid = ''b'', dependencies = Some [''a'']\<rparr>,
             \<lparr>tid = ''__proto__'', dependencies = None\<rparr>,
             \<lparr>tid = ''a'', dependencies = Some []\<rparr>]"
  have ids: "distinct (map tid ?T)" by simp
  have valid: "\<forall>t \<in> set ?T. \<forall>d \<in> set (dependenciesOrEmpty t). d \<in> taskIds ?T"
    by (simp add: dependenciesOrEmpty_def taskIds_def)
  have proto: "\<forall>t \<in> set ?T. ''__proto__'' \<notin> set (dependenciesOrEmpty t)"
    by (simp add: dependenciesOrEmpty_def)
  have shadow: "''hasOwnProperty'' \<in> taskIds ?T \<longrightarrow> (\<forall>t \<in> set ?T. dependenciesOrEmpty t = [])"
    by (simp add: taskIds_def)
  have acyc: "acyclic (set (dependencyEdges ?T))"
    by (simp add: dependencyEdges_def dependenciesOrEmpty_def no_edges_acyclic)
  have total: "\<forall>x y. codeUnitCompare x y \<le> 0 \<or> codeUnitCompare y x \<le> 0"
    unfolding codeUnitCompare_le by auto
  have trans: "\<forall>x y z. codeUnitCompare x y \<le> 0 \<and> codeUnitCompare y z \<le> 0 \<longrightarrow> codeUnitCompare x z \<le> 0"
    unfolding codeUnitCompare_le by auto
  have g: "graphOf ?T = \<lparr>own = [''b'' \<mapsto> [''a''], ''a'' \<mapsto> []], prototype = Some []\<rparr>"
    by (simp add: graphOf_def assign_def emptyObject_def dependenciesOrEmpty_def)
  have run: "resolveBatches codeUnitCompare inherited ?T (graphOf ?T)
    = Inr [[\<lparr>tid = ''__proto__'', dependencies = None\<rparr>, \<lparr>tid = ''a'', dependencies = Some []\<rparr>],
           [\<lparr>tid = ''b'', dependencies = Some [''a'']\<rparr>]]"
    unfolding g
    by (simp add: resolveBatches_def firstBatch_def batchLoop.simps nextBatch_def ready_def
        getProperty_def sortById_def codeUnitCompare_def Let_def)
  from resolveBatches_partitions_in_dependency_order
         [OF ids valid proto shadow acyc total trans, of inherited] run
  show "resolveBatches codeUnitCompare inherited ?T (graphOf ?T)
      = Inr [[\<lparr>tid = ''__proto__'', dependencies = None\<rparr>, \<lparr>tid = ''a'', dependencies = Some []\<rparr>],
             [\<lparr>tid = ''b'', dependencies = Some [''a'']\<rparr>]]
     \<and> (\<exists>g batches.
           buildDependencyGraph inherited ?T = Inr g
           \<and> resolveBatches codeUnitCompare inherited ?T g = Inr batches
           \<and> mset (concat batches) = mset ?T
           \<and> distinct (concat batches))"
    by blast
qed

text \<open>
  Claim C1, as stated, covers every list whose prerequisites are ids of the list and whose
  dependencies are acyclic, and has the batches sorted lexicographically.  Four runs show
  what it leaves out.

  \<^item> Two tasks with the same id and no prerequisites: \<open>resolveBatches\<close> throws, because
    \<open>completed\<close> is a set of ids, so its size, one, differs from the number of tasks, two.
  \<^item> A task \<open>a\<close> whose prerequisite is the task \<open>__proto__\<close>, with distinct ids and no
    cycle: that task became the graph's prototype, not a property, and the validation
    throws that \<open>a\<close> depends on a non-existent task.
  \<^item> A task \<open>a\<close> whose prerequisite is the task \<open>hasOwnProperty\<close>, again with distinct
    ids and no cycle: the property of that name hides the method, and the validation
    throws a \<open>TypeError\<close>.
  \<^item> The tasks \<open>B\<close> and \<open>a\<close> without prerequisites, sorted by a comparison that, like
    \<open>localeCompare\<close>, puts \<open>a\<close> before \<open>B\<close>: the batch is \<open>a, B\<close>, which is not in
    lexicographic order, \<open>B\<close> being the smaller string.
\<close>

theorem resolveBatches_unsupported_inputs_counterexample:
  "(\<forall>inherited.
      acyclic (set (dependencyEdges
        [\<lparr>tid = ''a'', dependencies = None\<rparr>, \<lparr>tid = ''a'', dependencies = None\<rparr>]))
      \<and> buildDependencyGraph inherited
           [\<lparr>tid = ''a'', dependencies = None\<rparr>, \<lparr>tid = ''a'', dependencies = None\<rparr>]
          = Inr \<lparr>own = [''a'' \<mapsto> []], prototype = None\<rparr>
      \<and> resolveBatches codeUnitCompare inherited
           [\<lparr>tid = ''a'', dependencies = None\<rparr>, \<lparr>tid = ''a'', dependencies = None\<rparr>]
           \<lparr>own = [''a'' \<mapsto> []], prototype = None\<rparr>
          = Inl (CyclicDependency []))
   \<and> (\<forall>inherited.
        distinct (map tid
          [\<lparr>tid = ''__proto__'', dependencies = None\<rparr>,
           \<lparr>tid = ''a'', dependencies = Some [''__proto__'']\<rparr>])
        \<and> ''__proto__'' \<in> taskIds
             [\<lparr>tid = ''__proto__'', dependencies = None\<rparr>,
              \<lparr>tid = ''a'', dependencies = Some [''__proto__'']\<rparr>]
        \<and> acyclic (set (dependencyEdges
             [\<lparr>tid = ''__proto__'', dependencies = None\<rparr>,
              \<lparr>tid = ''a'', dependencies = Some [''__proto__'']\<rparr>]))
        \<and> buildDependencyGraph inherited
             [\<lparr>tid = ''__proto__'', dependencies = None\<rparr>,
              \<lparr>tid = ''a'', dependencies = Some [''__proto__'']\<rparr>]
            = Inl (InvalidDependency ''a'' ''__proto__''))
   \<and> (\<forall>inherited.
        distinct (map tid
          [\<lparr>tid = ''hasOwnProperty'', dependencies = None\<rparr>,
           \<lparr>tid = ''a'', dependencies = Some [''hasOwnProperty'']\<rparr>])
        \<and> ''hasOwnProperty'' \<in> taskIds
             [\<lparr>tid = ''hasOwnProperty'', dependencies = None\<rparr>,
              \<lparr>tid = ''a'', dependencies = Some [''hasOwnProperty'']\<rparr>]
        \<and> acyclic (set (dependencyEdges
             [\<lparr>tid = ''hasOwnProperty'', dependencies = None\<rparr>,
              \<lparr>tid = ''a'', dependencies = Some [''hasOwnProperty'']\<rparr>]))
        \<and> buildDependencyGraph inherited
             [\<lparr>tid = ''hasOwnProperty'', dependencies = None\<rparr>,
              \<lparr>tid = ''a'', dependencies = Some [''hasOwnProperty'']\<rparr>]
            = Inl (TypeError ''graph.hasOwnProperty is not a function''))
   \<and> (\<forall>inherited.
        buildDependencyGraph inherited
             [\<lparr>tid = ''B'', dependencies = None\<rparr>, \<lparr>tid = ''a'', dependencies = None\<rparr>]
            = Inr \<lparr>own = [''B'' \<mapsto> [], ''a'' \<mapsto> []], prototype = None\<rparr>
        \<and> resolveBatches alphabeticCompare inherited
             [\<lparr>tid = ''B'', dependencies = None\<rparr>, \<lparr>tid = ''a'', dependencies = None\<rparr>]
             \<lparr>own = [''B'' \<mapsto> [], ''a'' \<mapsto> []], prototype = None\<rparr>
            = Inr [[\<lparr>tid = ''a'', dependencies = None\<rparr>, \<lparr>tid = ''B'', dependencies = None\<rparr>]]
        \<and> ''B'' < ''a''
        \<and> \<not> sorted (map tid [\<lparr>tid = ''a'', dependencies = None\<rparr>,
                              \<lparr>tid = ''B'', dependencies = None\<rparr>]))"
proof (intro conjI allI)
  fix inherited :: prototypes
  show "acyclic (set (dependencyEdges
        [\<lparr>tid = ''a'', dependencies = None\<rparr>, \<lparr>tid = ''a'', dependencies = None\<rparr>]))"
    by (simp add: dependencyEdges_def dependenciesOrEmpty_def no_edges_acyclic)
  show "buildDependencyGraph inherited
           [\<lparr>tid = ''a'', dependencies = None\<rparr>, \<lparr>tid = ''a'', dependencies = None\<rparr>]
          = Inr \<lparr>own = [''a'' \<mapsto> []], prototype = None\<rparr>"
    by (simp add: buildDependencyGraph_def graphOf_def assign_def emptyObject_def
        getProperty_def dependenciesOrEmpty_def)
  show "resolveBatches codeUnitCompare inherited
           [\<lparr>tid = ''a'', dependencies = None\<rparr>, \<lparr>tid = ''a'', dependencies = None\<rparr>]
           \<lparr>own = [''a'' \<mapsto> []], prototype = None\<rparr>
          = Inl (CyclicDependency [])"
    by (simp add: resolveBatches_def firstBatch_def batchLoop.simps nextBatch_def ready_def
        getProperty_def sortById_def codeUnitCompare_def Let_def)
  show "distinct (map tid
          [\<lparr>tid = ''__proto__'', dependencies = None\<rparr>,
           \<lparr>tid = ''a'', dependencies = Some [''__proto__'']\<rparr>])"
    by simp
  show "''__proto__'' \<in> taskIds
             [\<lparr>tid = ''__proto__'', dependencies = None\<rparr>,
              \<lparr>tid = ''a'', dependencies = Some [''__proto__'']\<rparr>]"
    by (simp add: taskIds_def)
  show "acyclic (set (dependencyEdges
             [\<lparr>tid = ''__proto__'', dependencies = None\<rparr>,
              \<lparr>tid = ''a'', dependencies = Some [''__proto__'']\<rparr>]))"
    by (simp add: dependencyEdges_def dependenciesOrEmpty_def no_edges_acyclic)
  show "buildDependencyGraph inherited
             [\<lparr>tid = ''__proto__'', dependencies = None\<rparr>,
              \<lparr>tid = ''a'', dependencies = Some [''__proto__'']\<rparr>]
            = Inl (InvalidDependency ''a'' ''__proto__'')"
    by (simp add: buildDependencyGraph_def graphOf_def assign_def emptyObject_def
        getProperty_def hasOwnProperty_def dependenciesOrEmpty_def)
  show "distinct (map tid
          [\<lparr>tid = ''hasOwnProperty'', dependencies = None\<rparr>,
           \<lparr>tid = ''a'', dependencies = Some [''hasOwnProperty'']\<rparr>])"
    by simp
  show "''hasOwnProperty'' \<in> taskIds
             [\<lparr>tid = ''hasOwnProperty'', dependencies = None\<rparr>,
              \<lparr>tid = ''a'', dependencies = Some [''hasOwnProperty'']\<rparr>]"
    by (simp add: taskIds_def)
  show "acyclic (set (dependencyEdges
             [\<lparr>tid = ''hasOwnProperty'', dependencies = None\<rparr>,
              \<lparr>tid = ''a'', dependencies = Some [''hasOwnProperty'']\<rparr>]))"
    by (simp add: dependencyEdges_def dependenciesOrEmpty_def no_edges_acyclic)
  show "buildDependencyGraph inherited
             [\<lparr>tid = ''hasOwnProperty'', dependencies = None\<rparr>,
              \<lparr>tid = ''a'', dependencies = Some [''hasOwnProperty'']\<rparr>]
            = Inl (TypeError ''graph.hasOwnProperty is not a function'')"
    by (simp add: buildDependencyGraph_def graphOf_def assign_def emptyObject_def
        getProperty_def hasOwnProperty_def dependenciesOrEmpty_def)
  show "buildDependencyGraph inherited
             [\<lparr>tid = ''B'', dependencies = None\<rparr>, \<lparr>tid = ''a'', dependencies = None\<rparr>]
            = Inr \<lparr>own = [''B'' \<mapsto> [], ''a'' \<mapsto> []], prototype = None\<rparr>"
    by (simp add: buildDependencyGraph_def graphOf_def assign_def emptyObject_def
        getProperty_def dependenciesOrEmpty_def)
  show "resolveBatches alphabeticCompare inherited
             [\<lparr>tid = ''B'', dependencies = None\<rparr>, \<lparr>tid = ''a'', dependencies = None\<rparr>]
             \<lparr>own = [''B'' \<mapsto> [], ''a'' \<mapsto> []], prototype = None\<rparr>
            = Inr [[\<lparr>tid = ''a'', dependencies = None\<rparr>, \<lparr>tid = ''B'', dependencies = None\<rparr>]]"
    by (simp add: resolveBatches_def firstBatch_def batchLoop.simps nextBatch_def ready_def
        getProperty_def sortById_def alphabeticCompare_def codeUnitCompare_def Let_def
        toLowerCase_def toLowerChar_def)
  show "''B'' < ''a''"
    by simp
  show "\<not> sorted (map tid [\<lparr>tid = ''a'', dependencies = None\<rparr>,
                            \<lparr>tid = ''B'', dependencies = None\<rparr>])"
    by simp
qed

subsection \<open>Rejected inputs\<close>

text \<open>
  Claim C7, amended in its first part by two hypotheses, that the ids are pairwise
  distinct and that none of them is \<open>hasOwnProperty\<close>.  Under these, when some task lists
  a prerequisite that is not an id of the list, \<open>buildDependencyGraph\<close> throws the
  invalid-dependency error; the prerequisite it names is one that the graph does not
  have as a property of its own, that is, one outside the list or \<open>__proto__\<close>.  When
  the graph is built and the dependency relation has a cycle, \<open>resolveBatches\<close> throws the
  cyclic-dependency error and returns no batches; and whenever the loop ends with a task
  whose id is not completed, \<open>resolveBatches\<close> throws the cyclic-dependency error naming
  exactly the tasks that were not scheduled.
\<close>

theorem resolver_rejects_unknown_and_cyclic_dependencies:
  "(distinct (map tid tasks) \<and> ''hasOwnProperty'' \<notin> taskIds tasks
      \<and> (\<exists>t \<in> set tasks. \<exists>d \<in> set (dependenciesOrEmpty t). d \<notin> taskIds tasks) \<longrightarrow>
      (\<exists>t \<in> set tasks. \<exists>d \<in> set (dependenciesOrEmpty t).
         (d = ''__proto__'' \<or> d \<notin> taskIds tasks)
         \<and> buildDependencyGraph inherited tasks = Inl (InvalidDependency (tid t) d)))
   \<and> (\<forall>g. buildDependencyGraph inherited tasks = Inr g
            \<and> \<not> acyclic (set (dependencyEdges tasks)) \<longrightarrow>
          (\<exists>missing. resolveBatches localeCompare inherited tasks g
                       = Inl (CyclicDependency missing)))
   \<and> (\<forall>g batches completed.
          batchLoop localeCompare inherited tasks g [] {} (firstBatch inherited g tasks)
            = Inr (batches, completed)
          \<and> (\<exists>t \<in> set tasks. tid t \<notin> completed) \<longrightarrow>
          resolveBatches localeCompare inherited tasks g
            = Inl (CyclicDependency (map tid (filter (\<lambda>t. tid t \<notin> completed) tasks))))"
proof (intro conjI allI impI)
  assume a: "distinct (map tid tasks) \<and> ''hasOwnProperty'' \<notin> taskIds tasks
      \<and> (\<exists>t \<in> set tasks. \<exists>d \<in> set (dependenciesOrEmpty t). d \<notin> taskIds tasks)"
  let ?g = "graphOf tasks"
  from a have get: "\<forall>t \<in> set tasks.
               getProperty inherited ?g (tid t) = Dependencies (dependenciesOrEmpty t)"
    by (simp add: getProperty_graphOf_distinct)
  from a have shadow: "own ?g ''hasOwnProperty'' = None"
    by (simp add: own_graphOf_None)
  from a have "\<exists>t \<in> set tasks. \<exists>d \<in> set (dependenciesOrEmpty t). own ?g d = None"
    unfolding own_graphOf_None by blast
  from validateDependencies_Some [OF get shadow this]
  obtain t d where t: "t \<in> set tasks" and d: "d \<in> set (dependenciesOrEmpty t)"
    and none: "own ?g d = None"
    and err: "validateDependencies inherited ?g tasks = Some (InvalidDependency (tid t) d)"
    by blast
  from none have "d = ''__proto__'' \<or> d \<notin> taskIds tasks"
    by (simp add: own_graphOf_None)
  moreover from err have "buildDependencyGraph inherited tasks = Inl (InvalidDependency (tid t) d)"
    by (simp add: buildDependencyGraph_def)
  ultimately show "\<exists>t \<in> set tasks. \<exists>d \<in> set (dependenciesOrEmpty t).
         (d = ''__proto__'' \<or> d \<notin> taskIds tasks)
         \<and> buildDependencyGraph inherited tasks = Inl (InvalidDependency (tid t) d)"
    using t d by blast
next
  fix g
  assume a: "buildDependencyGraph inherited tasks = Inr g
            \<and> \<not> acyclic (set (dependencyEdges tasks))"
  then have "buildDependencyGraph inherited tasks = Inr g" by simp
  then have g: "g = graphOf tasks" by (rule buildDependencyGraph_Inr)
  have arrays: "\<forall>t \<in> set tasks. \<exists>deps. getProperty inherited g (tid t) = Dependencies deps"
    unfolding g by (simp add: getProperty_graphOf_array)
  from batchLoop_returns [OF arrays]
  obtain B C where
    loop: "batchLoop localeCompare inherited tasks g [] {} (firstBatch inherited g tasks) = Inr (B, C)"
    by blast
  note res = loop_result [OF loop arrays]
  note sub = loop_completed_subset [OF loop]
  have "card C \<noteq> length tasks"
  proof
    assume eq: "card C = length tasks"
    have "card C \<le> card (taskIds tasks)"
      using sub by (intro card_mono) (simp_all add: taskIds_def)
    moreover have "card (taskIds tasks) \<le> length tasks"
      unfolding taskIds_def using card_length [of "map tid tasks"] by simp
    ultimately have c: "card (taskIds tasks) = length tasks" and "card C = card (taskIds tasks)"
      using eq by simp_all
    with sub have C: "C = taskIds tasks"
      by (intro card_subset_eq) (simp_all add: taskIds_def)
    from c have "distinct (map tid tasks)"
      unfolding taskIds_def by (intro card_distinct) simp
    then have deps: "\<forall>t \<in> set tasks. graphDeps inherited g (tid t) = dependenciesOrEmpty t"
      unfolding g by (rule graph_of_distinct_tasks)
    have "taskIds tasks \<subseteq> tid ` set (concat B)" using C res(2) by simp
    from ordered_batches_acyclic [OF res(4) this deps] a show False by simp
  qed
  with resolveBatches_loop [OF loop]
  show "\<exists>missing. resolveBatches localeCompare inherited tasks g = Inl (CyclicDependency missing)"
    by simp
next
  fix g batches completed
  assume a: "batchLoop localeCompare inherited tasks g [] {} (firstBatch inherited g tasks)
            = Inr (batches, completed)
          \<and> (\<exists>t \<in> set tasks. tid t \<notin> completed)"
  then have loop: "batchLoop localeCompare inherited tasks g [] {} (firstBatch inherited g tasks)
            = Inr (batches, completed)"
    by simp
  from a obtain t where "t \<in> set tasks" "tid t \<notin> completed" by blast
  with loop_completed_subset [OF loop] have "card completed \<noteq> length tasks"
    by (rule card_completed_less)
  with resolveBatches_loop [OF loop]
  show "resolveBatches localeCompare inherited tasks g
            = Inl (CyclicDependency (map tid (filter (\<lambda>t. tid t \<notin> completed) tasks)))"
    by simp
qed

text \<open>
  Claim C7, as stated, promises the invalid-dependency error whenever some task lists a
  prerequisite outside the list.  Two runs show what it leaves out.

  \<^item> The task \<open>a\<close> with the unknown prerequisite \<open>x\<close>, followed by a second task \<open>a\<close>
    without prerequisites: the second assignment replaces the first in the graph, the
    unknown prerequisite is never looked at, and the graph is built.
  \<^item> The single task \<open>hasOwnProperty\<close> with the unknown prerequisite \<open>x\<close>: the property of
    that name hides the method that the validation calls, which throws a \<open>TypeError\<close>
    instead of the invalid-dependency error.
\<close>

theorem buildDependencyGraph_unreported_prerequisite_counterexample:
  "(\<forall>inherited.
      ''x'' \<in> set (dependenciesOrEmpty \<lparr>tid = ''a'', dependencies = Some [''x'']\<rparr>)
      \<and> ''x'' \<notin> taskIds
           [\<lparr>tid = ''a'', dependencies = Some [''x'']\<rparr>, \<lparr>tid = ''a'', dependencies = None\<rparr>]
      \<and> buildDependencyGraph inherited
           [\<lparr>tid = ''a'', dependencies = Some [''x'']\<rparr>, \<lparr>tid = ''a'', dependencies = None\<rparr>]
          = Inr \<lparr>own = [''a'' \<mapsto> []], prototype = None\<rparr>)
   \<and> (\<forall>inherited.
        ''x'' \<in> set (dependenciesOrEmpty \<lparr>tid = ''hasOwnProperty'', dependencies = Some [''x'']\<rparr>)
        \<and> ''x'' \<notin> taskIds [\<lparr>tid = ''hasOwnProperty'', dependencies = Some [''x'']\<rparr>]
        \<and> buildDependencyGraph inherited
             [\<lparr>tid = ''hasOwnProperty'', dependencies = Some [''x'']\<rparr>]
            = Inl (TypeError ''graph.hasOwnProperty is not a function''))"
  by (simp add: buildDependencyGraph_def graphOf_def assign_def emptyObject_def
      getProperty_def hasOwnProperty_def dependenciesOrEmpty_def taskIds_def)

text \<open>
  The theorem on a task with an unknown prerequisite, and on two tasks that wait for each
  other.
\<close>

theorem resolver_rejects_unknown_and_cyclic_dependencies_witness:
  "\<forall>inherited.
     buildDependencyGraph inherited [\<lparr>tid = ''a'', dependencies = Some [''x'']\<rparr>]
        = Inl (InvalidDependency ''a'' ''x'')
     \<and> (\<exists>t \<in> set [\<lparr>tid = ''a'', dependencies = Some [''x'']\<rparr>].
          \<exists>d \<in> set (dependenciesOrEmpty t).
            (d = ''__proto__'' \<or> d \<notin> taskIds [\<lparr>tid = ''a'', dependencies = Some [''x'']\<rparr>])
            \<and> buildDependencyGraph inherited [\<lparr>tid = ''a'', dependencies = Some [''x'']\<rparr>]
                 = Inl (InvalidDependency (tid t) d))
     \<and> buildDependencyGraph inherited
         [\<lparr>tid = ''a'', dependencies = Some [''b'']\<rparr>, \<lparr>tid = ''b'', dependencies = Some [''a'']\<rparr>]
        = Inr \<lparr>own = [''a'' \<mapsto> [''b''], ''b'' \<mapsto> [''a'']], prototype = None\<rparr>
     \<and> (\<exists>missing.
           resolveBatches codeUnitCompare inherited
             [\<lparr>tid = ''a'', dependencies = Some [''b'']\<rparr>, \<lparr>tid = ''b'', dependencies = Some [''a'']\<rparr>]
             \<lparr>own = [''a'' \<mapsto> [''b''], ''b'' \<mapsto> [''a'']], prototype = None\<rparr>
           = Inl (CyclicDependency missing))
     \<and> resolveBatches codeUnitCompare inherited
           [\<lparr>tid = ''a'', dependencies = Some [''b'']\<rparr>, \<lparr>tid = ''b'', dependencies = Some [''a'']\<rparr>]
           \<lparr>own = [''a'' \<mapsto> [''b''], ''b'' \<mapsto> [''a'']], prototype = None\<rparr>
         = Inl (CyclicDependency [''a'', ''b''])"
proof
  fix inherited :: prototypes
  let ?U = "[\<lparr>tid = ''a'', dependencies = Some [''x'']\<rparr>]"
  let ?T = "[\<lparr>tid = ''a'', dependencies = Some [''b'']\<rparr>, \<lparr>tid = ''b'', dependencies = Some [''a'']\<rparr>]"
  let ?g = "\<lparr>own = [''a'' \<mapsto> [''b''], ''b'' \<mapsto> [''a'']], prototype = None\<rparr>"
  note thmU = resolver_rejects_unknown_and_cyclic_dependencies [of ?U inherited codeUnitCompare]
  note thmT = resolver_rejects_unknown_and_cyclic_dependencies [of ?T inherited codeUnitCompare]
  have u: "distinct (map tid ?U) \<and> ''hasOwnProperty'' \<notin> taskIds ?U
      \<and> (\<exists>t \<in> set ?U. \<exists>d \<in> set (dependenciesOrEmpty t). d \<notin> taskIds ?U)"
    by (simp add: dependenciesOrEmpty_def taskIds_def)
  from thmU u have c1: "\<exists>t \<in> set ?U. \<exists>d \<in> set (dependenciesOrEmpty t).
         (d = ''__proto__'' \<or> d \<notin> taskIds ?U)
         \<and> buildDependencyGraph inherited ?U = Inl (InvalidDependency (tid t) d)"
    by blast
  have c2: "buildDependencyGraph inherited ?U = Inl (InvalidDependency ''a'' ''x'')"
    by (simp add: buildDependencyGraph_def graphOf_def assign_def emptyObject_def
        getProperty_def hasOwnProperty_def dependenciesOrEmpty_def)
  have build: "buildDependencyGraph inherited ?T = Inr ?g"
    by (simp add: buildDependencyGraph_def graphOf_def assign_def emptyObject_def
        getProperty_def hasOwnProperty_def dependenciesOrEmpty_def)
  have "(''a'', ''a'') \<in> (set (dependencyEdges ?T))\<^sup>+"
    by (rule trancl_into_trancl [of _ "''b''"])
       (simp_all add: dependencyEdges_def dependenciesOrEmpty_def r_into_trancl)
  then have cyc: "\<not> acyclic (set (dependencyEdges ?T))"
    unfolding acyclic_def by blast
  from thmT build cyc
  have c3: "\<exists>missing. resolveBatches codeUnitCompare inherited ?T ?g = Inl (CyclicDependency missing)"
    by blast
  have c4: "resolveBatches codeUnitCompare inherited ?T ?g = Inl (CyclicDependency [''a'', ''b''])"
    by (simp add: resolveBatches_def firstBatch_def batchLoop.simps nextBatch_def ready_def
        getProperty_def Let_def)
  from c1 c2 build c3 c4
  show "buildDependencyGraph inherited ?U = Inl (InvalidDependency ''a'' ''x'')
     \<and> (\<exists>t \<in> set ?U. \<exists>d \<in> set (dependenciesOrEmpty t).
            (d = ''__proto__'' \<or> d \<notin> taskIds ?U)
            \<and> buildDependencyGraph inherited ?U = Inl (InvalidDependency (tid t) d))
     \<and> buildDependencyGraph inherited ?T = Inr ?g
     \<and> (\<exists>missing. resolveBatches codeUnitCompare inherited ?T ?g = Inl (CyclicDependency missing))
     \<and> resolveBatches codeUnitCompare inherited ?T ?g = Inl (CyclicDependency [''a'', ''b''])"
    by blast
qed

subsection \<open>The added hypotheses are needed\<close>

text \<open>
  Each hypothesis added to the two claims excludes inputs on which the resolver fails
  throughout: with a repeated id it never returns batches; with a task \<open>hasOwnProperty\<close>
  and distinct ids, any prerequisite at all makes the validation throw the \<open>TypeError\<close>;
  and with distinct ids a prerequisite \<open>__proto__\<close> keeps the graph from being built.
\<close>

lemma repeated_id_never_batched:
  assumes "\<not> distinct (map tid tasks)"
  shows "resolveBatches localeCompare inherited tasks g \<noteq> Inr batches"
proof (cases "batchLoop localeCompare inherited tasks g [] {} (firstBatch inherited g tasks)")
  case (Inl error)
  then show ?thesis by (simp add: resolveBatches_def)
next
  case (Inr result)
  obtain B C where result: "result = (B, C)" by (cases result)
  with Inr have
    loop: "batchLoop localeCompare inherited tasks g [] {} (firstBatch inherited g tasks) = Inr (B, C)"
    by simp
  have "card C \<le> card (taskIds tasks)"
    using loop_completed_subset [OF loop] by (intro card_mono) (simp_all add: taskIds_def)
  moreover have "card (taskIds tasks) \<noteq> length tasks"
  proof
    assume "card (taskIds tasks) = length tasks"
    then have "distinct (map tid tasks)"
      unfolding taskIds_def by (intro card_distinct) simp
    with assms show False by simp
  qed
  moreover have "card (taskIds tasks) \<le> length tasks"
    unfolding taskIds_def using card_length [of "map tid tasks"] by simp
  ultimately have "card C \<noteq> length tasks" by simp
  with resolveBatches_loop [OF loop] show ?thesis by simp
qed

lemma validateDependencies_method_shadowed:
  assumes "\<forall>t \<in> set ts. getProperty inherited g (tid t) = Dependencies (D t)"
    and "own g ''hasOwnProperty'' \<noteq> None"
    and "\<exists>t \<in> set ts. D t \<noteq> []"
  shows "validateDependencies inherited g ts
           = Some (TypeError ''graph.hasOwnProperty is not a function'')"
  using assms(1,3)
proof (induction ts)
  case Nil
  then show ?case by simp
next
  case (Cons u us)
  from Cons.prems(1) have get: "getProperty inherited g (tid u) = Dependencies (D u)"
    by simp
  show ?case
  proof (cases "D u = []")
    case True
    with Cons.prems have "\<forall>t \<in> set us. getProperty inherited g (tid t) = Dependencies (D t)"
      and "\<exists>t \<in> set us. D t \<noteq> []"
      by auto
    then have "validateDependencies inherited g us
                 = Some (TypeError ''graph.hasOwnProperty is not a function'')"
      by (rule Cons.IH)
    with get True show ?thesis by simp
  next
    case False
    with get show ?thesis
      by (simp add: checkDependencies_method_shadowed [OF assms(2)])
  qed
qed

lemma task_hasOwnProperty_throws:
  assumes "distinct (map tid tasks)" and "''hasOwnProperty'' \<in> taskIds tasks"
    and "\<exists>t \<in> set tasks. dependenciesOrEmpty t \<noteq> []"
  shows "buildDependencyGraph inherited tasks
           = Inl (TypeError ''graph.hasOwnProperty is not a function'')"
proof -
  let ?g = "graphOf tasks"
  have get: "\<forall>t \<in> set tasks.
               getProperty inherited ?g (tid t) = Dependencies (dependenciesOrEmpty t)"
    using assms(1) by (simp add: getProperty_graphOf_distinct)
  have "own ?g ''hasOwnProperty'' \<noteq> None"
    using assms(2) by (simp add: own_graphOf_None)
  from validateDependencies_method_shadowed [OF get this assms(3)]
  show ?thesis by (simp add: buildDependencyGraph_def)
qed

lemma prerequisite_proto_never_built:
  assumes "distinct (map tid tasks)"
    and "\<exists>t \<in> set tasks. ''__proto__'' \<in> set (dependenciesOrEmpty t)"
  shows "buildDependencyGraph inherited tasks \<noteq> Inr g"
proof -
  let ?g = "graphOf tasks"
  have get: "\<forall>t \<in> set tasks.
               getProperty inherited ?g (tid t) = Dependencies (dependenciesOrEmpty t)"
    using assms(1) by (simp add: getProperty_graphOf_distinct)
  have "validateDependencies inherited ?g tasks \<noteq> None"
  proof (cases "own ?g ''hasOwnProperty'' = None")
    case True
    have "own ?g ''__proto__'' = None" by (simp add: own_graphOf_None)
    with assms(2) have "\<exists>t \<in> set tasks. \<exists>d \<in> set (dependenciesOrEmpty t). own ?g d = None"
      by blast
    from validateDependencies_Some [OF get True this] show ?thesis by auto
  next
    case False
    from assms(2) obtain t where "t \<in> set tasks"
      and "''__proto__'' \<in> set (dependenciesOrEmpty t)" by blast
    then have "t \<in> set tasks" and "dependenciesOrEmpty t \<noteq> []" by auto
    then have "\<exists>t \<in> set tasks. dependenciesOrEmpty t \<noteq> []" by blast
    from validateDependencies_method_shadowed [OF get False this] show ?thesis by simp
  qed
  then show ?thesis
    by (auto simp: buildDependencyGraph_def)
qed

section \<open>Properties of the retry executor\<close>

lemma retryLoop_success:
  assumes "attempt \<le> k" "k \<le> M"
    and "\<forall>j. attempt \<le> j \<and> j < k \<longrightarrow> (\<exists>e. fn j = Inl e \<and> isRetryable e)"
    and "fn k = Inr v"
  shows "retryLoop js config fn M attempt lastError calls sleeps =
           \<lparr>outcome = Inr v, attempts = calls + (k - attempt) + 1,
            slept = sleeps @ map (calculateBackoff js config) [attempt..<k]\<rparr>"
  using assms
proof (induction "k - attempt" arbitrary: attempt lastError calls sleeps)
  case 0
  then have "attempt = k" by simp
  with 0 show ?case by (subst retryLoop.simps) simp
next
  case (Suc n)
  then have lt: "attempt < k" by simp
  with Suc.prems obtain e where e: "fn attempt = Inl e" "isRetryable e" by auto
  have IH: "retryLoop js config fn M (attempt + 1) (Some e) (calls + 1)
              (sleeps @ [calculateBackoff js config attempt]) =
     \<lparr>outcome = Inr v, attempts = (calls + 1) + (k - (attempt + 1)) + 1,
      slept = (sleeps @ [calculateBackoff js config attempt])
                @ map (calculateBackoff js config) [attempt + 1..<k]\<rparr>"
    using Suc.hyps(2) Suc.prems lt by (intro Suc.hyps(1)) auto
  have up: "[attempt..<k] = attempt # [attempt + 1..<k]"
    using lt by (simp add: upt_conv_Cons)
  show ?case
    using lt Suc.prems(2) e IH up by (subst retryLoop.simps) (simp add: Let_def)
qed

lemma retryLoop_exhausted:
  assumes "attempt \<le> M"
    and "\<forall>j. attempt \<le> j \<and> j \<le> M \<longrightarrow> (\<exists>e. fn j = Inl e \<and> isRetryable e)"
  shows "\<exists>e. fn M = Inl e \<and> retryLoop js config fn M attempt lastError calls sleeps =
           \<lparr>outcome = Inl (exhausted M (Some e)), attempts = calls + (M - attempt) + 1,
            slept = sleeps @ map (calculateBackoff js config) [attempt..<M]\<rparr>"
  using assms
proof (induction "M - attempt" arbitrary: attempt lastError calls sleeps)
  case 0
  then have eq: "attempt = M" by simp
  with 0 obtain e where e: "fn M = Inl e" "isRetryable e" by auto
  with eq show ?case by (subst retryLoop.simps) simp
next
  case (Suc n)
  then have lt: "attempt < M" by simp
  with Suc.prems obtain e where e: "fn attempt = Inl e" "isRetryable e" by auto
  have "\<exists>e'. fn M = Inl e' \<and>
      retryLoop js config fn M (attempt + 1) (Some e) (calls + 1)
        (sleeps @ [calculateBackoff js config attempt]) =
      \<lparr>outcome = Inl (exhausted M (Some e')), attempts = (calls + 1) + (M - (attempt + 1)) + 1,
       slept = (sleeps @ [calculateBackoff js config attempt])
                 @ map (calculateBackoff js config) [attempt + 1..<M]\<rparr>"
    using Suc.hyps(2) Suc.prems lt by (intro Suc.hyps(1)) auto
  then obtain e' where e': "fn M = Inl e'"
    and IH: "retryLoop js config fn M (attempt + 1) (Some e) (calls + 1)
               (sleeps @ [calculateBackoff js config attempt]) =
      \<lparr>outcome = Inl (exhausted M (Some e')), attempts = (calls + 1) + (M - (attempt + 1)) + 1,
       slept = (sleeps @ [calculateBackoff js config attempt])
                 @ map (calculateBackoff js config) [attempt + 1..<M]\<rparr>"
    by blast
  have up: "[attempt..<M] = attempt # [attempt + 1..<M]"
    using lt by (simp add: upt_conv_Cons)
  have "retryLoop js config fn M attempt lastError calls sleeps =
           \<lparr>outcome = Inl (exhausted M (Some e')), attempts = calls + (M - attempt) + 1,
            slept = sleeps @ map (calculateBackoff js config) [attempt..<M]\<rparr>"
    using lt e IH up by (subst retryLoop.simps) (simp add: Let_def)
  with e' show ?case by blast
qed

lemma sum_backoff:
  "sum_list (map ms (map (calculateBackoff js config) [1..<k])) =
     (\<Sum>j = 2..k. ms (multiply js (initialDelayMs config)
                         (mathPow js (backoffMultiplier config) (j - 2))))"
proof -
  have "sum_list (map ms (map (calculateBackoff js config) [1..<k]))
          = sum (\<lambda>i. ms (calculateBackoff js config i)) {1..<k}"
    by (simp add: interv_sum_list_conv_sum_set_nat comp_def)
  also have "\<dots> = (\<Sum>j = 2..k. ms (multiply js (initialDelayMs config)
                         (mathPow js (backoffMultiplier config) (j - 2))))"
    by (rule sum.reindex_bij_witness [where i = "\<lambda>j. j - 1" and j = "\<lambda>i. i + 1"])
       (auto simp: calculateBackoff_def)
  finally show ?thesis .
qed

text \<open>
  Claim C2: with \<open>M \<ge> 1\<close> attempts allowed, a thunk that fails retryably on attempts
  \<open>1, \<dots>, k - 1\<close> and returns \<open>v\<close> on attempt \<open>k \<le> M\<close> makes the executor return \<open>v\<close>
  after exactly \<open>k\<close> calls; it sleeps \<open>k - 1\<close> times, the delay before attempt \<open>j\<close> being
  \<open>initialDelayMs * Math.pow(backoffMultiplier, j - 2)\<close>, product and power as the runtime
  computes them on its numbers; so the total delay, each delay counted as the duration
  \<open>ms\<close> it stands for, is the sum of these for \<open>j = 2, \<dots>, k\<close>.  A thunk that fails
  retryably on all \<open>M\<close> attempts makes the executor throw, after \<open>M\<close> calls, the error
  \<open>Failed after M attempts: \<close> followed by the message of the last error.
\<close>

theorem executeWithRetry_backoff_and_exhaustion:
  fixes fn :: "nat \<Rightarrow> js_error + 'a" and js :: "'d arithmetic" and ms :: "'d \<Rightarrow> real"
  assumes "effectiveMaxAttempts config context = M" and "1 \<le> M"
  shows "(\<forall>k v. 1 \<le> k \<and> k \<le> M
            \<and> (\<forall>j. 1 \<le> j \<and> j < k \<longrightarrow> (\<exists>e. fn j = Inl e \<and> isRetryable e))
            \<and> fn k = Inr v \<longrightarrow>
            outcome (executeWithRetry js config fn context) = Inr v
            \<and> attempts (executeWithRetry js config fn context) = k
            \<and> length (slept (executeWithRetry js config fn context)) = k - 1
            \<and> (\<forall>j. 2 \<le> j \<and> j \<le> k \<longrightarrow>
                  slept (executeWithRetry js config fn context) ! (j - 2)
                    = multiply js (initialDelayMs config)
                        (mathPow js (backoffMultiplier config) (j - 2)))
            \<and> sum_list (map ms (slept (executeWithRetry js config fn context)))
                 = (\<Sum>j = 2..k. ms (multiply js (initialDelayMs config)
                                     (mathPow js (backoffMultiplier config) (j - 2)))))
       \<and> ((\<forall>j. 1 \<le> j \<and> j \<le> M \<longrightarrow> (\<exists>e. fn j = Inl e \<and> isRetryable e)) \<longrightarrow>
            (\<exists>e. fn M = Inl e
               \<and> outcome (executeWithRetry js config fn context)
                    = Inl (newError (''Failed after '' @ toString M @ '' attempts: '' @ message e))
               \<and> attempts (executeWithRetry js config fn context) = M))"
proof (intro conjI allI impI)
  fix k v
  assume a: "1 \<le> k \<and> k \<le> M
            \<and> (\<forall>j. 1 \<le> j \<and> j < k \<longrightarrow> (\<exists>e. fn j = Inl e \<and> isRetryable e))
            \<and> fn k = Inr v"
  then have run: "executeWithRetry js config fn context =
      \<lparr>outcome = Inr v, attempts = 0 + (k - 1) + 1,
       slept = [] @ map (calculateBackoff js config) [1..<k]\<rparr>"
    unfolding executeWithRetry_def assms(1)
    by (intro retryLoop_success) auto
  show "outcome (executeWithRetry js config fn context) = Inr v"
    by (simp add: run)
  show "attempts (executeWithRetry js config fn context) = k"
    using a by (simp add: run)
  show "length (slept (executeWithRetry js config fn context)) = k - 1"
    by (simp add: run)
  show "sum_list (map ms (slept (executeWithRetry js config fn context)))
          = (\<Sum>j = 2..k. ms (multiply js (initialDelayMs config)
                              (mathPow js (backoffMultiplier config) (j - 2))))"
    using sum_backoff [of ms js config k] by (simp add: run)
  fix j
  assume j: "2 \<le> j \<and> j \<le> k"
  then have "j - 2 < length [1..<k]" and "[1..<k] ! (j - 2) = j - 1"
    by auto
  then have "map (calculateBackoff js config) [1..<k] ! (j - 2) = calculateBackoff js config (j - 1)"
    by (simp only: nth_map)
  also have "\<dots> = multiply js (initialDelayMs config)
                      (mathPow js (backoffMultiplier config) (j - 2))"
    using j by (simp add: calculateBackoff_def numeral_2_eq_2)
  finally show "slept (executeWithRetry js config fn context) ! (j - 2)
                  = multiply js (initialDelayMs config)
                      (mathPow js (backoffMultiplier config) (j - 2))"
    by (simp add: run)
next
  assume "\<forall>j. 1 \<le> j \<and> j \<le> M \<longrightarrow> (\<exists>e. fn j = Inl e \<and> isRetryable e)"
  with assms(2) have "\<exists>e. fn M = Inl e \<and> retryLoop js config fn M 1 None 0 [] =
           \<lparr>outcome = Inl (exhausted M (Some e)), attempts = 0 + (M - 1) + 1,
            slept = [] @ map (calculateBackoff js config) [1..<M]\<rparr>"
    by (intro retryLoop_exhausted) auto
  then obtain e where e: "fn M = Inl e"
    and run: "executeWithRetry js config fn context =
           \<lparr>outcome = Inl (exhausted M (Some e)), attempts = 0 + (M - 1) + 1,
            slept = [] @ map (calculateBackoff js config) [1..<M]\<rparr>"
    unfolding executeWithRetry_def assms(1) by blast
  have "outcome (executeWithRetry js config fn context)
          = Inl (newError (''Failed after '' @ toString M @ '' attempts: '' @ message e))"
    by (simp add: run exhausted_def)
  moreover have "attempts (executeWithRetry js config fn context) = M"
    using assms(2) by (simp add: run)
  ultimately show "\<exists>e. fn M = Inl e
               \<and> outcome (executeWithRetry js config fn context)
                    = Inl (newError (''Failed after '' @ toString M @ '' attempts: '' @ message e))
               \<and> attempts (executeWithRetry js config fn context) = M"
    using e by blast
qed

text \<open>
  A run with the default configuration (three attempts, initial delay 1000 ms, multiplier
  2): two failures and then a value give delays 1000 and 2000, in total 3000 ms; three
  failures give the exhaustion error.
\<close>

theorem executeWithRetry_backoff_and_exhaustion_witness:
  "outcome (executeWithRetry integerArithmetic
      \<lparr>maxAttempts = 3, backoffMultiplier = 2, initialDelayMs = 1000\<rparr>
      (\<lambda>n. if n < 3 then Inl (newError ''socket hang up'') else Inr (42::nat))
      \<lparr>maxRetries = None\<rparr>) = Inr 42
   \<and> attempts (executeWithRetry integerArithmetic
      \<lparr>maxAttempts = 3, backoffMultiplier = 2, initialDelayMs = 1000\<rparr>
      (\<lambda>n. if n < 3 then Inl (newError ''socket hang up'') else Inr (42::nat))
      \<lparr>maxRetries = None\<rparr>) = 3
   \<and> slept (executeWithRetry integerArithmetic
      \<lparr>maxAttempts = 3, backoffMultiplier = 2, initialDelayMs = 1000\<rparr>
      (\<lambda>n. if n < 3 then Inl (newError ''socket hang up'') else Inr (42::nat))
      \<lparr>maxRetries = None\<rparr>) ! 1 = 2000
   \<and> sum_list (map real_of_int (slept (executeWithRetry integerArithmetic
      \<lparr>maxAttempts = 3, backoffMultiplier = 2, initialDelayMs = 1000\<rparr>
      (\<lambda>n. if n < 3 then Inl (newError ''socket hang up'') else Inr (42::nat))
      \<lparr>maxRetries = None\<rparr>))) = 3000
   \<and> outcome (executeWithRetry integerArithmetic
      \<lparr>maxAttempts = 3, backoffMultiplier = 2, initialDelayMs = 1000\<rparr>
      (\<lambda>n. Inl (newError ''socket hang up'') :: js_error + nat)
      \<lparr>maxRetries = None\<rparr>)
       = Inl (newError ''Failed after 3 attempts: socket hang up'')"
proof -
  let ?config = "\<lparr>maxAttempts = 3, backoffMultiplier = 2::int, initialDelayMs = 1000\<rparr>"
  let ?ctx = "\<lparr>maxRetries = None\<rparr>"
  let ?err = "newError ''socket hang up''"
  let ?fn = "\<lambda>n::nat. if n < 3 then Inl ?err else Inr (42::nat)"
  let ?bad = "\<lambda>n::nat. Inl ?err :: js_error + nat"
  have m: "effectiveMaxAttempts ?config ?ctx = 3"
    by (simp add: effectiveMaxAttempts_def)
  have r: "isRetryable ?err"
    by (simp add: isRetryable_def nonRetryablePatterns_def includesStr_def toLowerCase_def
        toLowerChar_def newError_def)
  have three: "(1::nat) \<le> 3" by simp
  have d: "multiply integerArithmetic (initialDelayMs ?config)
             (mathPow integerArithmetic (backoffMultiplier ?config) (3 - 2)) = 2000"
    by (simp add: integerArithmetic_def)
  have s: "(\<Sum>j = 2..3::nat. real_of_int (multiply integerArithmetic (initialDelayMs ?config)
             (mathPow integerArithmetic (backoffMultiplier ?config) (j - 2)))) = 3000"
    by (simp add: integerArithmetic_def numeral_3_eq_3 numeral_2_eq_2 atLeastAtMostSuc_conv)
  have ts: "toString 3 = ''3''"
    by (simp add: toString.simps digit_def)
  have msg: "message ?err = ''socket hang up''"
    by (simp add: newError_def)
  note thm1 = executeWithRetry_backoff_and_exhaustion
                [of ?config ?ctx 3 ?fn integerArithmetic real_of_int, OF m three]
  note thm2 = executeWithRetry_backoff_and_exhaustion
                [of ?config ?ctx 3 ?bad integerArithmetic real_of_int, OF m three]
  have a: "1 \<le> (3::nat) \<and> (3::nat) \<le> 3
            \<and> (\<forall>j. 1 \<le> j \<and> j < 3 \<longrightarrow> (\<exists>e. ?fn j = Inl e \<and> isRetryable e))
            \<and> ?fn 3 = Inr 42"
    using r by simp
  have b: "\<forall>j. 1 \<le> j \<and> j \<le> 3 \<longrightarrow> (\<exists>e. ?bad j = Inl e \<and> isRetryable e)"
    using r by simp
  have j3: "2 \<le> (3::nat) \<and> (3::nat) \<le> 3" by simp
  from thm1 a have c1: "outcome (executeWithRetry integerArithmetic ?config ?fn ?ctx) = Inr 42
    \<and> attempts (executeWithRetry integerArithmetic ?config ?fn ?ctx) = 3
    \<and> (\<forall>j. 2 \<le> j \<and> j \<le> 3 \<longrightarrow>
          slept (executeWithRetry integerArithmetic ?config ?fn ?ctx) ! (j - 2)
            = multiply integerArithmetic (initialDelayMs ?config)
                (mathPow integerArithmetic (backoffMultiplier ?config) (j - 2)))
    \<and> sum_list (map real_of_int (slept (executeWithRetry integerArithmetic ?config ?fn ?ctx)))
        = (\<Sum>j = 2..3::nat. real_of_int (multiply integerArithmetic (initialDelayMs ?config)
             (mathPow integerArithmetic (backoffMultiplier ?config) (j - 2))))"
    by blast
  from c1 j3 have c1': "slept (executeWithRetry integerArithmetic ?config ?fn ?ctx) ! (3 - 2)
            = multiply integerArithmetic (initialDelayMs ?config)
                (mathPow integerArithmetic (backoffMultiplier ?config) (3 - 2))"
    by blast
  have one: "(3::nat) - 2 = 1" by simp
  from thm2 b have c2: "outcome (executeWithRetry integerArithmetic ?config ?bad ?ctx)
       = Inl (newError (''Failed after '' @ toString 3 @ '' attempts: '' @ message ?err))"
    by blast
  from c1 have o: "outcome (executeWithRetry integerArithmetic ?config ?fn ?ctx) = Inr 42"
    and at: "attempts (executeWithRetry integerArithmetic ?config ?fn ?ctx) = 3"
    and su: "sum_list (map real_of_int (slept (executeWithRetry integerArithmetic ?config ?fn ?ctx)))
        = (\<Sum>j = 2..3::nat. real_of_int (multiply integerArithmetic (initialDelayMs ?config)
             (mathPow integerArithmetic (backoffMultiplier ?config) (j - 2))))"
    by blast+
  have sl: "slept (executeWithRetry integerArithmetic ?config ?fn ?ctx) ! 1 = 2000"
    using c1' d unfolding one by simp
  have su': "sum_list (map real_of_int (slept (executeWithRetry integerArithmetic ?config ?fn ?ctx)))
        = 3000"
    using su s by simp
  have ex: "outcome (executeWithRetry integerArithmetic ?config ?bad ?ctx)
       = Inl (newError ''Failed after 3 attempts: socket hang up'')"
    using c2 ts msg by simp
  from o at sl su' ex show ?thesis by blast
qed

text \<open>
  What the executor does get right about non-retryable errors: with \<open>M \<ge> 1\<close> attempts
  allowed, a thunk whose first failure has a message that, in lower case, contains one of
  \<open>rate limit\<close>, \<open>quota exceeded\<close>, \<open>authentication\<close>, \<open>not found\<close>,
  \<open>permission denied\<close> is called exactly once, and that same error is rethrown, without
  sleeping and without wrapping.
\<close>

lemma executeWithRetry_stops_on_non_retryable_message:
  fixes fn :: "nat \<Rightarrow> js_error + 'a"
  assumes "effectiveMaxAttempts config context = M" and "1 \<le> M"
    and "fn 1 = Inl e"
    and "\<exists>pattern \<in> set nonRetryablePatterns. includesStr (toLowerCase (message e)) pattern"
  shows "executeWithRetry js config fn context = \<lparr>outcome = Inl e, attempts = 1, slept = []\<rparr>"
proof -
  from assms(4) have "\<not> isRetryable e"
    by (simp add: isRetryable_def list_ex_iff)
  with assms(2,3) show ?thesis
    unfolding executeWithRetry_def assms(1)
    by (subst retryLoop.simps) simp
qed

lemma executeWithRetry_stops_on_rate_limit:
  "executeWithRetry integerArithmetic
      \<lparr>maxAttempts = 3, backoffMultiplier = 2, initialDelayMs = 1000\<rparr>
      (\<lambda>n. Inl (newError ''API Rate Limit exceeded'') :: js_error + nat)
      \<lparr>maxRetries = Some 5\<rparr>
    = \<lparr>outcome = Inl (newError ''API Rate Limit exceeded''), attempts = 1, slept = []\<rparr>"
proof -
  let ?config = "\<lparr>maxAttempts = 3, backoffMultiplier = 2::int, initialDelayMs = 1000\<rparr>"
  let ?ctx = "\<lparr>maxRetries = Some 5\<rparr>"
  let ?err = "newError ''API Rate Limit exceeded''"
  let ?fn = "\<lambda>n::nat. Inl ?err :: js_error + nat"
  have m: "effectiveMaxAttempts ?config ?ctx = 5"
    by (simp add: effectiveMaxAttempts_def)
  have five: "(1::nat) \<le> 5" by simp
  have f: "?fn 1 = Inl ?err" by simp
  have p: "\<exists>pattern \<in> set nonRetryablePatterns. includesStr (toLowerCase (message ?err)) pattern"
    by (simp add: nonRetryablePatterns_def includesStr_def toLowerCase_def toLowerChar_def
        newError_def)
  show ?thesis
    by (rule executeWithRetry_stops_on_non_retryable_message [OF m five f p])
qed

text \<open>The flag and the code of an error have no part in the decision to retry.\<close>

lemma isRetryable_ignores_flag_and_code:
  "isRetryable (error\<lparr>shouldRetry := flag, code := c\<rparr>) = isRetryable error"
  by (simp add: isRetryable_def)

text \<open>
  Claim C8 does not hold of the code.  The claim counts as non-retryable, besides the five
  message patterns, an error on which a caller has set the flag that disables retry, and
  the agent executor sets that flag: on an unreachable server it throws an error with
  \<open>code = SERVER_UNREACHABLE\<close>, marks it \<open>shouldRetry = false\<close> and comments that it should
  bubble up immediately.  The implementation stage runs the agent under
  \<open>executeWithRetry\<close>, and \<open>isRetryable\<close> looks at the message only.  So with three attempts
  allowed the thunk that always throws this error is called three times, the executor
  sleeps 1000 and 2000 ms in between, and what it throws in the end is a new error that
  wraps the message and carries neither the flag nor the code, where the claim has one
  call, no sleep and the error itself.
\<close>

theorem executeWithRetry_retries_error_flagged_non_retryable:
  "attempts (executeWithRetry integerArithmetic
      \<lparr>maxAttempts = 3, backoffMultiplier = 2, initialDelayMs = 1000\<rparr>
      (\<lambda>n. Inl \<lparr>message = ''OpenCode server is unreachable or not responding'',
                 code = Some ''SERVER_UNREACHABLE'', shouldRetry = Some False\<rparr>
            :: js_error + unit)
      \<lparr>maxRetries = None\<rparr>) = 3
   \<and> slept (executeWithRetry integerArithmetic
      \<lparr>maxAttempts = 3, backoffMultiplier = 2, initialDelayMs = 1000\<rparr>
      (\<lambda>n. Inl \<lparr>message = ''OpenCode server is unreachable or not responding'',
                 code = Some ''SERVER_UNREACHABLE'', shouldRetry = Some False\<rparr>
            :: js_error + unit)
      \<lparr>maxRetries = None\<rparr>) = [1000, 2000]
   \<and> outcome (executeWithRetry integerArithmetic
      \<lparr>maxAttempts = 3, backoffMultiplier = 2, initialDelayMs = 1000\<rparr>
      (\<lambda>n. Inl \<lparr>message = ''OpenCode server is unreachable or not responding'',
                 code = Some ''SERVER_UNREACHABLE'', shouldRetry = Some False\<rparr>
            :: js_error + unit)
      \<lparr>maxRetries = None\<rparr>)
     = Inl \<lparr>message = ''Failed after 3 attempts: OpenCode server is unreachable or not responding'',
            code = None, shouldRetry = None\<rparr>"
proof -
  have r: "isRetryable \<lparr>message = ''OpenCode server is unreachable or not responding'',
                        code = Some ''SERVER_UNREACHABLE'', shouldRetry = Some False\<rparr>"
    by (simp add: isRetryable_def nonRetryablePatterns_def includesStr_def toLowerCase_def
        toLowerChar_def)
  have ts: "toString 3 = ''3''"
    by (simp add: toString.simps digit_def)
  show ?thesis
    using r ts
    by (simp add: executeWithRetry_def effectiveMaxAttempts_def retryLoop.simps
        calculateBackoff_def exhausted_def integerArithmetic_def newError_def)
qed

section \<open>Properties of the self-heal loop\<close>

lemma attemptsStarted_append:
  "attemptsStarted (xs @ ys) = attemptsStarted xs @ attemptsStarted ys"
  by (induction xs rule: attemptsStarted.induct) simp_all

lemma attemptThrows_not_passes: "attemptThrows env k \<Longrightarrow> \<not> testPassesOn env k"
  by (simp add: attemptThrows_def testPassesOn_def rerunTest_def split: sum.splits)

text \<open>One iteration of the loop either returns a success or goes on to the next attempt.\<close>

lemma attemptLoop_step:
  assumes "k \<le> maxFixAttempts"
  shows "(\<exists>tr'. attemptLoop env n k False trace = (Returned \<lparr>success = True, fixAttempts = k\<rparr>, tr')
            \<and> testPassesOn env k
            \<and> attemptsStarted tr' = attemptsStarted trace @ [k])
       \<or> (\<exists>q tr'. attemptLoop env n k False trace = attemptLoop env n (k + 1) q tr'
            \<and> attemptsStarted tr' = attemptsStarted trace @ [k]
            \<and> (q \<longrightarrow> testPassesOn env k))"
proof -
  note unfold = attemptLoop.simps [of env n k False trace]
  have continues: "?thesis"
    if "attemptLoop env n k False trace = attemptLoop env n (k + 1) q tr'"
      and "attemptsStarted tr' = attemptsStarted trace @ [k]"
      and "q \<longrightarrow> testPassesOn env k" for q tr'
    using that by blast
  have returns: "?thesis"
    if "attemptLoop env n k False trace = (Returned \<lparr>success = True, fixAttempts = k\<rparr>, tr')"
      and "testPassesOn env k"
      and "attemptsStarted tr' = attemptsStarted trace @ [k]" for tr'
    using that by blast
  show ?thesis
  proof (cases "createFixIssue env k")
    case (Inl e)
    with assms have "attemptLoop env n k False trace
        = attemptLoop env n (k + 1) False (trace @ [AttemptStarted k])"
      by (simp add: unfold)
    then show ?thesis by (rule continues) (simp_all add: attemptsStarted_append)
  next
    case create: (Inr fixIssue)
    show ?thesis
    proof (cases "runFixAgent env k")
      case (Inl e)
      with assms create have "attemptLoop env n k False trace
          = attemptLoop env n (k + 1) False
              (trace @ [AttemptStarted k] @ [FixIssueCreated k fixIssue])"
        by (simp add: unfold)
      then show ?thesis by (rule continues) (simp_all add: attemptsStarted_append)
    next
      case run: (Inr u)
      let ?t4 = "\<lambda>b. trace @ [AttemptStarted k] @ [FixIssueCreated k fixIssue]
                    @ [FixAgentRan k] @ [TestRerun k b]"
      show ?thesis
      proof (cases "rerunTest env k")
        case False
        show ?thesis
        proof (cases "commentStillFailing env k")
          case (Inl e)
          with assms create run False have "attemptLoop env n k False trace
              = attemptLoop env n (k + 1) False (?t4 False)"
            by (simp add: unfold)
          then show ?thesis by (rule continues) (simp_all add: attemptsStarted_append)
        next
          case (Inr v)
          with assms create run False have "attemptLoop env n k False trace
              = attemptLoop env n (k + 1) False
                  (?t4 False @ [Commented fixIssue (stillFailingComment k)])"
            by (simp add: unfold)
          then show ?thesis by (rule continues) (simp_all add: attemptsStarted_append)
        qed
      next
        case True
        with create run have pass: "testPassesOn env k"
          by (simp add: testPassesOn_def)
        show ?thesis
        proof (cases "handleSuccessfulFix env k")
          case (Inl e)
          with assms create run True have "attemptLoop env n k False trace
              = attemptLoop env n (k + 1) True (?t4 True)"
            by (simp add: unfold)
          then show ?thesis by (rule continues) (simp_all add: attemptsStarted_append pass)
        next
          case ok: (Inr v)
          show ?thesis
          proof (cases "rerunDependentTests env k")
            case (Inl e)
            with assms create run True ok have "attemptLoop env n k False trace
                = attemptLoop env n (k + 1) True (?t4 True @ [FixClosedAsSuccessful fixIssue])"
              by (simp add: unfold)
            then show ?thesis by (rule continues) (simp_all add: attemptsStarted_append pass)
          next
            case (Inr w)
            with assms create run True ok have "attemptLoop env n k False trace
                = (Returned \<lparr>success = True, fixAttempts = k\<rparr>,
                   ?t4 True @ [FixClosedAsSuccessful fixIssue] @ [DependentTestsRerun k])"
              by (simp add: unfold)
            then show ?thesis by (rule returns) (simp_all add: attemptsStarted_append pass)
          qed
        qed
      qed
    qed
  qed
qed

lemma attemptLoop_done:
  "\<not> (k \<le> maxFixAttempts \<and> \<not> p) \<Longrightarrow> attemptLoop env n k p trace = (LoopEnded, trace)"
  by (subst attemptLoop.simps) auto

lemma loop_never_passing:
  assumes "\<forall>j. k \<le> j \<and> j \<le> maxFixAttempts \<longrightarrow> \<not> testPassesOn env j"
  shows "fst (attemptLoop env n k False trace) = LoopEnded
         \<and> attemptsStarted (snd (attemptLoop env n k False trace))
             = attemptsStarted trace @ [k..<Suc maxFixAttempts]"
  using assms
proof (induction "Suc maxFixAttempts - k" arbitrary: k trace)
  case 0
  then have "\<not> (k \<le> maxFixAttempts \<and> \<not> False)" by simp
  from attemptLoop_done [OF this] 0 show ?case by simp
next
  case (Suc m)
  then have k: "k \<le> maxFixAttempts" by simp
  with Suc.prems have np: "\<not> testPassesOn env k" by simp
  from attemptLoop_step [OF k, of env n trace] np
  obtain tr' where step: "attemptLoop env n k False trace = attemptLoop env n (k + 1) False tr'"
    and started: "attemptsStarted tr' = attemptsStarted trace @ [k]"
    by auto
  have "fst (attemptLoop env n (k + 1) False tr') = LoopEnded
         \<and> attemptsStarted (snd (attemptLoop env n (k + 1) False tr'))
             = attemptsStarted tr' @ [k + 1..<Suc maxFixAttempts]"
    using Suc.hyps(2) Suc.prems by (intro Suc.hyps(1)) auto
  moreover have "[k..<Suc maxFixAttempts] = k # [k + 1..<Suc maxFixAttempts]"
    using k by (simp add: upt_conv_Cons)
  ultimately show ?case by (simp add: step started)
qed

lemma loop_attempts_bounded:
  "length (attemptsStarted (snd (attemptLoop env n k p trace)))
     \<le> length (attemptsStarted trace) + (Suc maxFixAttempts - k)"
proof (induction "Suc maxFixAttempts - k" arbitrary: k p trace)
  case 0
  then have "\<not> (k \<le> maxFixAttempts \<and> \<not> p)" by simp
  from attemptLoop_done [OF this] show ?case by simp
next
  case (Suc m)
  then have k: "k \<le> maxFixAttempts" by simp
  show ?case
  proof (cases p)
    case True
    then have "\<not> (k \<le> maxFixAttempts \<and> \<not> p)" by simp
    from attemptLoop_done [OF this] show ?thesis by simp
  next
    case False
    then have p: "attemptLoop env n k p trace = attemptLoop env n k False trace" by simp
    from attemptLoop_step [OF k, of env n trace]
    show ?thesis
    proof (elim disjE exE conjE)
      fix tr'
      assume "attemptLoop env n k False trace = (Returned \<lparr>success = True, fixAttempts = k\<rparr>, tr')"
        and "attemptsStarted tr' = attemptsStarted trace @ [k]"
      with k show ?thesis by (simp add: p)
    next
      fix q tr'
      assume step: "attemptLoop env n k False trace = attemptLoop env n (k + 1) q tr'"
        and started: "attemptsStarted tr' = attemptsStarted trace @ [k]"
      have "m = Suc maxFixAttempts - (k + 1)" using Suc.hyps(2) by simp
      from Suc.hyps(1) [OF this, of q tr'] started k show ?thesis
        by (simp add: p step)
    qed
  qed
qed


lemma coordinate_never_passing:
  assumes "\<forall>k. 1 \<le> k \<and> k \<le> maxFixAttempts \<longrightarrow> \<not> testPassesOn env k"
    and "notifyTestFailed env = Inr ()"
  shows "\<exists>trace. attemptLoop env n 1 False [Notified ''test-failed''] = (LoopEnded, trace)
           \<and> attemptsStarted trace = [1..<Suc maxFixAttempts]
           \<and> coordinateTestFix env n =
               (case handleMaxAttemptsReached env n trace of
                  (Inl error, trace') \<Rightarrow> (Inl error, trace')
                | (Inr _, trace') \<Rightarrow>
                    (Inr \<lparr>success = False, fixAttempts = maxFixAttempts\<rparr>, trace'))"
proof -
  obtain exit trace where loop: "attemptLoop env n 1 False [Notified ''test-failed''] = (exit, trace)"
    by (cases "attemptLoop env n 1 False [Notified ''test-failed'']")
  from loop_never_passing [OF assms(1), of n "[Notified ''test-failed'']"] loop
  have "exit = LoopEnded" and "attemptsStarted trace = [1..<Suc maxFixAttempts]"
    by simp_all
  with loop assms(2) show ?thesis
    by (simp add: coordinateTestFix_def)
qed

lemma handleMaxAttemptsReached_ok:
  assumes "addMaxAttemptsLabels env = Inr ()" and "commentMaxAttempts env = Inr ()"
    and "notifyMaxAttempts env = Inr ()" and "notifyTaskUpdate env = Inr ()"
  shows "handleMaxAttemptsReached env n trace =
           (Inr (), trace @ [LabelsAdded n [''oc-ralph:max-attempts-reached'', ''oc-ralph:test-failed''],
                             Commented n maxAttemptsComment,
                             Notified ''test-max-attempts-reached'',
                             StatusTableRefreshed])"
  using assms by (simp add: handleMaxAttemptsReached_def)

lemma handleMaxAttemptsReached_started:
  "attemptsStarted (snd (handleMaxAttemptsReached env n trace)) = attemptsStarted trace"
  by (simp add: handleMaxAttemptsReached_def attemptsStarted_append Let_def split: sum.splits)

lemma coordinate_attempts_bounded:
  "length (attemptsStarted (snd (coordinateTestFix env n))) \<le> maxFixAttempts"
proof (cases "notifyTestFailed env")
  case (Inl e)
  then show ?thesis by (simp add: coordinateTestFix_def)
next
  case (Inr u)
  obtain exit trace where loop: "attemptLoop env n 1 False [Notified ''test-failed''] = (exit, trace)"
    by (cases "attemptLoop env n 1 False [Notified ''test-failed'']")
  from loop_attempts_bounded [of env n 1 False "[Notified ''test-failed'']"] loop
  have b: "length (attemptsStarted trace) \<le> maxFixAttempts" by simp
  show ?thesis
  proof (cases exit)
    case (Returned r)
    with Inr loop b show ?thesis by (simp add: coordinateTestFix_def)
  next
    case LoopEnded
    obtain res trace' where h: "handleMaxAttemptsReached env n trace = (res, trace')"
      by (cases "handleMaxAttemptsReached env n trace")
    with handleMaxAttemptsReached_started [of env n trace]
    have "attemptsStarted trace' = attemptsStarted trace" by simp
    with Inr loop b LoopEnded h show ?thesis
      by (cases res) (simp_all add: coordinateTestFix_def)
  qed
qed

lemma coordinate_never_passing_unsuccessful:
  assumes "\<forall>k. 1 \<le> k \<and> k \<le> maxFixAttempts \<longrightarrow> \<not> testPassesOn env k"
  shows "\<forall>r. fst (coordinateTestFix env n) = Inr r \<longrightarrow> \<not> success r"
proof (cases "notifyTestFailed env")
  case (Inl e)
  then show ?thesis by (simp add: coordinateTestFix_def)
next
  case (Inr u)
  then have "notifyTestFailed env = Inr ()" by simp
  from coordinate_never_passing [OF assms this, of n]
  obtain trace where c: "coordinateTestFix env n =
               (case handleMaxAttemptsReached env n trace of
                  (Inl error, trace') \<Rightarrow> (Inl error, trace')
                | (Inr _, trace') \<Rightarrow>
                    (Inr \<lparr>success = False, fixAttempts = maxFixAttempts\<rparr>, trace'))"
    by blast
  show ?thesis unfolding c by (auto split: prod.splits sum.splits)
qed

lemma selfHealPhase_fails:
  assumes "(n, env) \<in> set failedTests"
    and "\<forall>r. fst (coordinateTestFix env n) = Inr r \<longrightarrow> \<not> success r"
  shows "\<exists>error. selfHealPhase failedTests = Inl error"
proof -
  let ?report = "case fst (coordinateTestFix env n) of
              Inr result \<Rightarrow>
                \<lparr>success = success result, fixAttempts = fixAttempts result,
                 testIssueNumber = n\<rparr>
            | Inl error \<Rightarrow>
                \<lparr>success = False, fixAttempts = 0, testIssueNumber = n\<rparr>"
  from assms(1) have "?report \<in> set (fixFailedTests failedTests)"
    unfolding fixFailedTests_def by force
  moreover from assms(2) have "\<not> success ?report"
    by (simp split: sum.splits)
  ultimately have "filter (\<lambda>r. \<not> success r) (fixFailedTests failedTests) \<noteq> []"
    by (auto simp: filter_empty_conv)
  moreover from assms(1) have "failedTests \<noteq> []" by auto
  ultimately show ?thesis by (simp add: selfHealPhase_def Let_def)
qed

text \<open>
  What holds of the loop for every behaviour of the collaborators: the coordinator starts
  at most 10 fix attempts; a test that passes on none of them makes the testing stage
  fail, whether the coordinator returns or throws; and an attempt that throws while
  creating the fix ticket, running the fix agent or re-running the test is consumed, the
  loop going on with the next attempt number.
\<close>

lemma coordinateTestFix_at_most_ten_attempts:
  "length (attemptsStarted (snd (coordinateTestFix env testIssue))) \<le> 10"
  using coordinate_attempts_bounded [of env testIssue] by (simp add: maxFixAttempts_def)

lemma selfHealPhase_fails_when_never_fixed:
  assumes "\<forall>k. 1 \<le> k \<and> k \<le> 10 \<longrightarrow> \<not> testPassesOn env k"
    and "(testIssue, env) \<in> set failedTests"
  shows "\<exists>error. selfHealPhase failedTests = Inl error"
proof -
  from assms(1) have "\<forall>k. 1 \<le> k \<and> k \<le> maxFixAttempts \<longrightarrow> \<not> testPassesOn env k"
    by (simp add: maxFixAttempts_def)
  then have "\<forall>r. fst (coordinateTestFix env testIssue) = Inr r \<longrightarrow> \<not> success r"
    by (rule coordinate_never_passing_unsuccessful)
  with assms(2) show ?thesis
    by (rule selfHealPhase_fails)
qed

lemma throwing_attempt_is_consumed:
  assumes "k \<le> 10" and "attemptThrows env k"
  shows "\<exists>trace'. attemptLoop env testIssue k False trace
                      = attemptLoop env testIssue (k + 1) False trace'
                    \<and> attemptsStarted trace' = attemptsStarted trace @ [k]"
proof -
  from assms have k: "k \<le> maxFixAttempts" and np: "\<not> testPassesOn env k"
    by (simp_all add: maxFixAttempts_def attemptThrows_not_passes)
  from attemptLoop_step [OF k, of env testIssue trace] np
  show ?thesis by auto
qed

text \<open>
  With collaborators whose four calls in \<open>handleMaxAttemptsReached\<close> return, a test that
  never passes ends as the coordinator's comments describe: labelled, commented on,
  notified, and reported as \<open>{success: false, attempts: 10}\<close>.
\<close>

lemma coordinateTestFix_when_the_last_calls_return:
  assumes "\<forall>k. 1 \<le> k \<and> k \<le> 10 \<longrightarrow> \<not> testPassesOn env k"
    and "notifyTestFailed env = Inr ()"
    and "addMaxAttemptsLabels env = Inr ()" and "commentMaxAttempts env = Inr ()"
    and "notifyMaxAttempts env = Inr ()" and "notifyTaskUpdate env = Inr ()"
  shows "fst (coordinateTestFix env testIssue) = Inr \<lparr>success = False, fixAttempts = 10\<rparr>
        \<and> attemptsStarted (snd (coordinateTestFix env testIssue)) = [1..<11]
        \<and> (\<exists>before. snd (coordinateTestFix env testIssue) =
              before @ [LabelsAdded testIssue
                          [''oc-ralph:max-attempts-reached'', ''oc-ralph:test-failed''],
                        Commented testIssue maxAttemptsComment,
                        Notified ''test-max-attempts-reached'',
                        StatusTableRefreshed])"
proof -
  from assms(1) have never: "\<forall>k. 1 \<le> k \<and> k \<le> maxFixAttempts \<longrightarrow> \<not> testPassesOn env k"
    by (simp add: maxFixAttempts_def)
  from coordinate_never_passing [OF never assms(2), of testIssue]
  obtain trace where started: "attemptsStarted trace = [1..<Suc maxFixAttempts]"
    and c: "coordinateTestFix env testIssue =
               (case handleMaxAttemptsReached env testIssue trace of
                  (Inl error, trace') \<Rightarrow> (Inl error, trace')
                | (Inr _, trace') \<Rightarrow>
                    (Inr \<lparr>success = False, fixAttempts = maxFixAttempts\<rparr>, trace'))"
    by blast
  have h: "handleMaxAttemptsReached env testIssue trace =
           (Inr (), trace @ [LabelsAdded testIssue [''oc-ralph:max-attempts-reached'', ''oc-ralph:test-failed''],
                             Commented testIssue maxAttemptsComment,
                             Notified ''test-max-attempts-reached'',
                             StatusTableRefreshed])"
    using assms(3-6) by (intro handleMaxAttemptsReached_ok) simp_all
  have "fst (coordinateTestFix env testIssue) = Inr \<lparr>success = False, fixAttempts = 10\<rparr>"
    by (simp add: c h maxFixAttempts_def)
  moreover have "attemptsStarted (snd (coordinateTestFix env testIssue)) = [1..<11]"
    using started by (simp add: c h maxFixAttempts_def attemptsStarted_append)
  moreover have "\<exists>before. snd (coordinateTestFix env testIssue) =
              before @ [LabelsAdded testIssue
                          [''oc-ralph:max-attempts-reached'', ''oc-ralph:test-failed''],
                        Commented testIssue maxAttemptsComment,
                        Notified ''test-max-attempts-reached'',
                        StatusTableRefreshed]"
    by (simp add: c h)
  ultimately show ?thesis by blast
qed

subsection \<open>The coordinator with the repository's collaborators\<close>

lemma maxAttemptsLabelsCall_throws:
  assumes "0 < testIssue"
  shows "maxAttemptsLabelsCall w owner repo testIssue
           = Inl (typeError ''labels.join is not a function'')"
  using assms
  by (simp add: maxAttemptsLabelsCall_def invoke_def issueOperationsMethods_def addLabels_def
      argument_def isTruthy_def lengthOf_def)

lemma handleMaxAttemptsReached_throws:
  assumes "addMaxAttemptsLabels env = Inl error"
  shows "handleMaxAttemptsReached env testIssue trace = (Inl error, trace)"
  using assms by (simp add: handleMaxAttemptsReached_def)

lemma repository_createFixIssue_throws:
  "\<exists>error. createFixIssue (repositoryCollaborators w owner repo testIssue) k = Inl error"
  by (simp add: repositoryCollaborators_def andThen_def invoke_def statusUpdaterMethods_def
      split: sum.splits)

lemma attemptLoop_createFixIssue_throws:
  assumes "\<forall>j. \<exists>error. createFixIssue env j = Inl error"
  shows "attemptLoop env n k False trace
           = (LoopEnded, trace @ map AttemptStarted [k..<Suc maxFixAttempts])"
proof (induction "Suc maxFixAttempts - k" arbitrary: k trace)
  case 0
  then have "\<not> (k \<le> maxFixAttempts \<and> \<not> False)" by simp
  from attemptLoop_done [OF this] 0 show ?case by simp
next
  case (Suc m)
  then have k: "k \<le> maxFixAttempts" by simp
  from assms obtain error where e: "createFixIssue env k = Inl error" by blast
  have step: "attemptLoop env n k False trace
                = attemptLoop env n (k + 1) False (trace @ [AttemptStarted k])"
    using k e by (subst attemptLoop.simps) simp
  have "attemptLoop env n (k + 1) False (trace @ [AttemptStarted k])
          = (LoopEnded, (trace @ [AttemptStarted k])
                          @ map AttemptStarted [k + 1..<Suc maxFixAttempts])"
    using Suc.hyps(2) by (intro Suc.hyps(1)) simp
  moreover have "[k..<Suc maxFixAttempts] = k # [k + 1..<Suc maxFixAttempts]"
    using k by (simp add: upt_conv_Cons)
  ultimately show ?case by (simp add: step)
qed

lemma selfHealPhase_coordinator_throws:
  assumes "fst (coordinateTestFix env testIssue) = Inl error"
  shows "selfHealPhase [(testIssue, env)]
           = Inl (newError ''1 test(s) could not be fixed after maximum attempts'')"
proof -
  have "toString 1 = ''1''"
    by (simp add: toString.simps digit_def)
  with assms show ?thesis
    by (simp add: selfHealPhase_def fixFailedTests_def Let_def)
qed

text \<open>
  Claim C3 does not hold of the code.  Let the coordinator add the max-attempts labels as
  the orchestrator wires it, by \<open>issueOps.addLabels(repo.owner, repo.repo,
  testIssue.number, [\<dots>])\<close> on an \<open>IssueOperations\<close>, whose \<open>addLabels\<close> takes \<open>(repo,
  issueNumber, labels)\<close>: the ticket number arrives as \<open>labels\<close>, and \<open>labels.join\<close> throws.
  Then, whatever the other collaborators answer, \<open>handleMaxAttemptsReached\<close> throws at its
  first call and has done nothing.  So for a test ticket (numbered from 1) that passes on
  none of the attempts 1 to 10, the coordinator starts the ten attempts and then throws
  this \<open>TypeError\<close>: after the loop it adds no label, writes no comment, sends no
  notification and returns no result.  The testing stage still fails, because it records
  a throwing coordinator as an unsuccessful fix with zero attempts.
\<close>

theorem handleMaxAttemptsReached_throws_before_labelling:
  assumes "addMaxAttemptsLabels env = maxAttemptsLabelsCall w owner repo testIssue"
    and "0 < testIssue"
  shows "(\<forall>trace. handleMaxAttemptsReached env testIssue trace
                     = (Inl (typeError ''labels.join is not a function''), trace))
       \<and> ((\<forall>k. 1 \<le> k \<and> k \<le> 10 \<longrightarrow> \<not> testPassesOn env k) \<and> notifyTestFailed env = Inr () \<longrightarrow>
            fst (coordinateTestFix env testIssue)
              = Inl (typeError ''labels.join is not a function'')
            \<and> attemptsStarted (snd (coordinateTestFix env testIssue)) = [1..<11]
            \<and> snd (coordinateTestFix env testIssue)
                = snd (attemptLoop env testIssue 1 False [Notified ''test-failed''])
            \<and> selfHealPhase [(testIssue, env)]
                = Inl (newError ''1 test(s) could not be fixed after maximum attempts''))"
proof (intro conjI allI impI)
  have labels: "addMaxAttemptsLabels env = Inl (typeError ''labels.join is not a function'')"
    using assms maxAttemptsLabelsCall_throws [of testIssue w owner repo] by simp
  fix trace
  show h: "handleMaxAttemptsReached env testIssue trace
             = (Inl (typeError ''labels.join is not a function''), trace)" for trace
    using labels by (rule handleMaxAttemptsReached_throws)
  assume a: "(\<forall>k. 1 \<le> k \<and> k \<le> 10 \<longrightarrow> \<not> testPassesOn env k) \<and> notifyTestFailed env = Inr ()"
  then have never: "\<forall>k. 1 \<le> k \<and> k \<le> maxFixAttempts \<longrightarrow> \<not> testPassesOn env k"
    and notified: "notifyTestFailed env = Inr ()"
    by (simp_all add: maxFixAttempts_def)
  from coordinate_never_passing [OF never notified, of testIssue]
  obtain loopTrace where
    loop: "attemptLoop env testIssue 1 False [Notified ''test-failed''] = (LoopEnded, loopTrace)"
    and started: "attemptsStarted loopTrace = [1..<Suc maxFixAttempts]"
    and c: "coordinateTestFix env testIssue =
               (case handleMaxAttemptsReached env testIssue loopTrace of
                  (Inl error, trace') \<Rightarrow> (Inl error, trace')
                | (Inr _, trace') \<Rightarrow>
                    (Inr \<lparr>success = False, fixAttempts = maxFixAttempts\<rparr>, trace'))"
    by blast
  have run: "coordinateTestFix env testIssue
               = (Inl (typeError ''labels.join is not a function''), loopTrace)"
    by (simp add: c h)
  show thrown: "fst (coordinateTestFix env testIssue)
                  = Inl (typeError ''labels.join is not a function'')"
    by (simp add: run)
  show "attemptsStarted (snd (coordinateTestFix env testIssue)) = [1..<11]"
    using started by (simp add: run maxFixAttempts_def)
  show "snd (coordinateTestFix env testIssue)
          = snd (attemptLoop env testIssue 1 False [Notified ''test-failed''])"
    unfolding run loop by simp
  show "selfHealPhase [(testIssue, env)]
          = Inl (newError ''1 test(s) could not be fixed after maximum attempts'')"
    using thrown by (rule selfHealPhase_coordinator_throws)
qed

text \<open>
  The theorem at the test ticket 7 of \<open>acme/shop\<close>, with the repository's collaborators
  throughout.
\<close>

theorem handleMaxAttemptsReached_throws_before_labelling_witness:
  "handleMaxAttemptsReached (repositoryCollaborators quietWiring ''acme'' ''shop'' 7) 7
       [Notified ''test-failed'']
     = (Inl (typeError ''labels.join is not a function''), [Notified ''test-failed''])
   \<and> fst (coordinateTestFix (repositoryCollaborators quietWiring ''acme'' ''shop'' 7) 7)
       = Inl (typeError ''labels.join is not a function'')
   \<and> attemptsStarted (snd (coordinateTestFix (repositoryCollaborators quietWiring ''acme'' ''shop'' 7) 7))
       = [1..<11]
   \<and> selfHealPhase [(7, repositoryCollaborators quietWiring ''acme'' ''shop'' 7)]
       = Inl (newError ''1 test(s) could not be fixed after maximum attempts'')"
proof -
  let ?env = "repositoryCollaborators quietWiring ''acme'' ''shop'' 7"
  have call: "addMaxAttemptsLabels ?env = maxAttemptsLabelsCall quietWiring ''acme'' ''shop'' 7"
    by (simp add: repositoryCollaborators_def)
  have pos: "0 < (7::nat)" by simp
  have never: "\<forall>k. 1 \<le> k \<and> k \<le> 10 \<longrightarrow> \<not> testPassesOn ?env k"
    by (simp add: testPassesOn_def repositoryCollaborators_def quietWiring_def andThen_def
        invoke_def statusUpdaterMethods_def)
  have notified: "notifyTestFailed ?env = Inr ()"
    by (simp add: repositoryCollaborators_def quietWiring_def)
  from handleMaxAttemptsReached_throws_before_labelling [OF call pos] never notified
  show ?thesis by blast
qed

text \<open>
  Claim C10 does not hold of the code either, by the same defect.  With the repository's
  collaborators every fix attempt throws while creating the fix ticket, at the latest
  when \<open>createFixIssue\<close> calls \<open>statusUpdater.notifyTaskUpdate\<close>, a method that
  \<open>StatusUpdater\<close> does not have.  The loop does catch each of these exceptions: it starts
  the attempts 1 to 10 and ends.  But the coordinator then throws the \<open>TypeError\<close> of
  \<open>handleMaxAttemptsReached\<close> where the claim has it return \<open>{success: false, attempts:
  10}\<close>, and the run consists of the opening notification and the ten attempts: the test
  ticket is not marked \<open>max-attempts-reached\<close>.
\<close>

theorem repository_attempts_all_throw_then_coordinator_throws:
  assumes "notify w ''test-failed'' = Inr ()" and "0 < testIssue"
  shows "(\<forall>k. attemptThrows (repositoryCollaborators w owner repo testIssue) k)
       \<and> attemptLoop (repositoryCollaborators w owner repo testIssue) testIssue 1 False
             [Notified ''test-failed'']
           = (LoopEnded, Notified ''test-failed'' # map AttemptStarted [1..<11])
       \<and> coordinateTestFix (repositoryCollaborators w owner repo testIssue) testIssue
           = (Inl (typeError ''labels.join is not a function''),
              Notified ''test-failed'' # map AttemptStarted [1..<11])"
proof -
  let ?env = "repositoryCollaborators w owner repo testIssue"
  have create: "\<forall>j. \<exists>error. createFixIssue ?env j = Inl error"
    using repository_createFixIssue_throws [of w owner repo testIssue] by blast
  have throws: "\<forall>k. attemptThrows ?env k"
  proof
    fix k
    from create obtain error where "createFixIssue ?env k = Inl error" by blast
    then show "attemptThrows ?env k" by (simp add: attemptThrows_def)
  qed
  have loop: "attemptLoop ?env testIssue 1 False [Notified ''test-failed'']
                = (LoopEnded, Notified ''test-failed'' # map AttemptStarted [1..<11])"
    using attemptLoop_createFixIssue_throws [OF create, of testIssue 1 "[Notified ''test-failed'']"]
    by (simp add: maxFixAttempts_def)
  have "addMaxAttemptsLabels ?env = maxAttemptsLabelsCall w owner repo testIssue"
    by (simp add: repositoryCollaborators_def)
  with assms(2) have "addMaxAttemptsLabels ?env = Inl (typeError ''labels.join is not a function'')"
    by (simp add: maxAttemptsLabelsCall_throws)
  then have h: "handleMaxAttemptsReached ?env testIssue trace
                  = (Inl (typeError ''labels.join is not a function''), trace)" for trace
    by (rule handleMaxAttemptsReached_throws)
  have "notifyTestFailed ?env = Inr ()"
    using assms(1) by (simp add: repositoryCollaborators_def)
  then have run: "coordinateTestFix ?env testIssue
           = (Inl (typeError ''labels.join is not a function''),
              Notified ''test-failed'' # map AttemptStarted [1..<11])"
    unfolding coordinateTestFix_def loop by (simp add: h)
  from throws loop run show ?thesis by blast
qed

theorem repository_attempts_all_throw_then_coordinator_throws_witness:
  "attemptThrows (repositoryCollaborators quietWiring ''acme'' ''shop'' 7) 10
   \<and> attemptLoop (repositoryCollaborators quietWiring ''acme'' ''shop'' 7) 7 1 False
         [Notified ''test-failed'']
       = (LoopEnded, Notified ''test-failed'' # map AttemptStarted [1..<11])
   \<and> coordinateTestFix (repositoryCollaborators quietWiring ''acme'' ''shop'' 7) 7
       = (Inl (typeError ''labels.join is not a function''),
          Notified ''test-failed'' # map AttemptStarted [1..<11])"
proof -
  have notified: "notify quietWiring ''test-failed'' = Inr ()"
    by (simp add: quietWiring_def)
  have pos: "0 < (7::nat)" by simp
  from repository_attempts_all_throw_then_coordinator_throws
         [OF notified pos, of "''acme''" "''shop''"]
  show ?thesis by blast
qed

section \<open>Properties of the debounced progress updates\<close>















section \<open>Properties of the issue body composer\<close>

subsection \<open>Searching in strings\<close>


lemma indexOf_None_iff:
  "indexOf s pat = None \<longleftrightarrow> (\<forall>j \<le> length s. \<not> prefix pat (drop j s))"
proof (induction s)
  case Nil
  show ?case by simp
next
  case (Cons c cs)
  have "(\<forall>j \<le> length (c # cs). \<not> prefix pat (drop j (c # cs)))
      \<longleftrightarrow> \<not> prefix pat (c # cs) \<and> (\<forall>j \<le> length cs. \<not> prefix pat (drop j cs))"
  proof
    assume a: "\<forall>j \<le> length (c # cs). \<not> prefix pat (drop j (c # cs))"
    have "\<not> prefix pat (drop j cs)" if "j \<le> length cs" for j
      using a [rule_format, of "Suc j"] that by simp
    moreover have "\<not> prefix pat (c # cs)" using a [rule_format, of 0] by simp
    ultimately show "\<not> prefix pat (c # cs) \<and> (\<forall>j \<le> length cs. \<not> prefix pat (drop j cs))"
      by blast
  next
    assume a: "\<not> prefix pat (c # cs) \<and> (\<forall>j \<le> length cs. \<not> prefix pat (drop j cs))"
    show "\<forall>j \<le> length (c # cs). \<not> prefix pat (drop j (c # cs))"
    proof (intro allI impI)
      fix j assume "j \<le> length (c # cs)"
      with a show "\<not> prefix pat (drop j (c # cs))" by (cases j) simp_all
    qed
  qed
  with Cons.IH show ?case by simp
qed

lemma indexOf_Some_first:
  "indexOf s pat = Some i \<Longrightarrow>
     i \<le> length s \<and> prefix pat (drop i s) \<and> (\<forall>j < i. \<not> prefix pat (drop j s))"
proof (induction s arbitrary: i)
  case Nil
  then show ?case by (simp split: if_splits)
next
  case (Cons c cs)
  show ?case
  proof (cases "prefix pat (c # cs)")
    case True
    with Cons.prems show ?thesis by simp
  next
    case False
    with Cons.prems obtain k where k: "indexOf cs pat = Some k" and i: "i = Suc k"
      by auto
    from Cons.IH [OF k] have "k \<le> length cs" "prefix pat (drop k cs)"
      and first: "\<forall>j < k. \<not> prefix pat (drop j cs)" by simp_all
    moreover have "\<not> prefix pat (drop j (c # cs))" if "j < Suc k" for j
      using that False first by (cases j) simp_all
    ultimately show ?thesis using i by simp
  qed
qed

text \<open>
  Searching across a character the pattern does not contain: an occurrence lies wholly
  before it or wholly after it.
\<close>

lemma prefix_before_separator:
  assumes "c \<notin> set pat"
  shows "prefix pat (A @ c # R) \<longleftrightarrow> prefix pat A"
proof
  assume "prefix pat (A @ c # R)"
  then consider "prefix pat A" | us where "pat = A @ us" "prefix us (c # R)"
    unfolding prefix_append by blast
  then show "prefix pat A"
  proof cases
    case 1
    then show ?thesis .
  next
    case 2
    show ?thesis
    proof (cases us)
      case Nil
      with 2 show ?thesis by simp
    next
      case (Cons u us')
      with 2 have "u = c" by simp
      with 2 Cons assms show ?thesis by simp
    qed
  qed
next
  assume "prefix pat A"
  then show "prefix pat (A @ c # R)" by (rule prefix_prefix)
qed

lemma indexOf_across_separator:
  assumes "c \<notin> set pat" and "pat \<noteq> []"
  shows "indexOf (A @ c # R) pat =
           (case indexOf A pat of
              Some i \<Rightarrow> Some i
            | None \<Rightarrow> map_option (\<lambda>i. i + length A + 1) (indexOf R pat))"
proof (induction A)
  case Nil
  from assms have "\<not> prefix pat (c # R)"
    by (cases pat) auto
  with assms(2) show ?case by (simp add: option.map_comp comp_def)
next
  case (Cons a A)
  have "prefix pat (a # A @ c # R) \<longleftrightarrow> prefix pat (a # A)"
    using prefix_before_separator [OF assms(1), of "a # A" R] by simp
  with Cons.IH show ?case
    by (simp add: option.map_comp comp_def split: option.splits)
qed

lemma indexOf_take_before:
  assumes "indexOf b pat = Some e" and "h \<le> e" and "pat \<noteq> []"
  shows "indexOf (take h b) pat = None"
  unfolding indexOf_None_iff
proof (intro allI impI notI)
  fix j
  assume j: "j \<le> length (take h b)" and p: "prefix pat (drop j (take h b))"
  from indexOf_Some_first [OF assms(1)]
  have first: "\<forall>k < e. \<not> prefix pat (drop k b)" by simp
  from p assms(3) have "drop j (take h b) \<noteq> []" by auto
  then have "j < h" by simp
  with assms(2) have "j < e" by simp
  from j have "j - length (take h b) = 0" by simp
  moreover have "drop j (take h b @ drop h b)
      = drop j (take h b) @ drop (j - length (take h b)) (drop h b)"
    by (rule drop_append)
  ultimately have "drop j b = drop j (take h b) @ drop h b"
    by (simp only: append_take_drop_id drop_0)
  with p have "prefix pat (drop j b)" by (simp add: prefix_prefix)
  with first \<open>j < e\<close> show False by blast
qed


subsection \<open>The markers\<close>

lemma endMarker_chars:
  "CHR ''#'' \<notin> set endMarker" "CHR 0x0A \<notin> set endMarker" "endMarker \<noteq> []"
  by (simp_all add: endMarker_def)

lemma statusTableMarker_chars:
  "CHR 0x0A \<notin> set statusTableMarker" "statusTableMarker \<noteq> []"
  "statusTableMarker = CHR ''#'' # tl statusTableMarker"
  by (simp_all add: statusTableMarker_def)

lemma startMarker_has_no_marker:
  "indexOf startMarker endMarker = None" "indexOf startMarker statusTableMarker = None"
  by (simp_all add: startMarker_def endMarker_def statusTableMarker_def)





subsection \<open>The shape of a built body\<close>

lemma build_shape:
  assumes "build spec p originalRequest statusTable planningStatus = Inr body"
  shows "\<exists>rest. body = startMarker @ CHR 0x0A # rest"
    and "\<exists>front. body = front @ CHR 0x0A # endMarker"
proof -
  from assms obtain body4 where b: "body = body4 @ ''\<newline>'' @ endMarker"
    and "\<exists>rest. body4 = startMarker @ CHR 0x0A # rest"
    by (auto simp: build_def Let_def split: sum.splits option.splits if_splits)
  then show "\<exists>rest. body = startMarker @ CHR 0x0A # rest"
    by auto
  from b show "\<exists>front. body = front @ CHR 0x0A # endMarker" by auto
qed

lemma built_body_markers:
  assumes "build spec p originalRequest statusTable planningStatus = Inr body"
  shows "prefix startMarker body"
    and "\<exists>e. indexOf body endMarker = Some e \<and> length startMarker \<le> e"
    and "\<forall>h. indexOf body statusTableMarker = Some h \<longrightarrow> length startMarker \<le> h"
proof -
  from build_shape(1) [OF assms] obtain rest where rest: "body = startMarker @ CHR 0x0A # rest"
    by blast
  then show "prefix startMarker body" by simp
  from build_shape(2) [OF assms] obtain front where front: "body = front @ CHR 0x0A # endMarker"
    by blast
  have "indexOf body endMarker \<noteq> None"
  proof
    assume "indexOf body endMarker = None"
    then have none: "\<forall>j \<le> length body. \<not> prefix endMarker (drop j body)"
      by (simp only: indexOf_None_iff)
    have le: "length front + 1 \<le> length body" by (simp add: front)
    have "drop (length front + 1) body = endMarker" by (simp add: front)
    with none [rule_format, OF le] show False by simp
  qed
  then obtain e where e: "indexOf body endMarker = Some e" by blast
  then have "length startMarker \<le> e"
    unfolding rest indexOf_across_separator [OF endMarker_chars(2,3)]
    by (auto simp: startMarker_has_no_marker)
  with e show "\<exists>e. indexOf body endMarker = Some e \<and> length startMarker \<le> e" by blast
  show "\<forall>h. indexOf body statusTableMarker = Some h \<longrightarrow> length startMarker \<le> h"
    unfolding rest indexOf_across_separator [OF statusTableMarker_chars(1,2)]
    by (auto simp: startMarker_has_no_marker)
qed









text \<open>
  The condition holds when the new status table begins with the heading, as every
  generated table does, and contains no end marker, and the body has no end marker before
  its heading.
\<close>

lemma indexOf_no_straddle:
  assumes "c \<notin> set pat" and "pat \<noteq> []"
    and "indexOf A pat = None" and "indexOf (c # R) pat = None"
  shows "indexOf (A @ c # R) pat = None"
proof -
  from assms(1,2) have "\<not> prefix pat (c # R)" by (cases pat) auto
  with assms(4) have "indexOf R pat = None" by simp
  with assms(3) show ?thesis
    by (simp add: indexOf_across_separator [OF assms(1,2)])
qed

lemma keptFront_without_end_marker:
  assumes "build spec p originalRequest statusTable planningStatus = Inr body"
    and "prefix statusTableMarker S" and "indexOf S endMarker = None"
    and "\<forall>h e. indexOf body statusTableMarker = Some h \<and> indexOf body endMarker = Some e
            \<longrightarrow> h \<le> e"
  shows "indexOf (keptFront body @ S) endMarker = None"
proof -
  note m = built_body_markers [OF assms(1)]
  from m(2) obtain e where e: "indexOf body endMarker = Some e" by blast
  from assms(2) obtain zs where "S = statusTableMarker @ zs"
    by (auto simp: prefix_def)
  then have "S = CHR ''#'' # (tl statusTableMarker @ zs)"
    using statusTableMarker_chars(3) by (metis append_Cons)
  then obtain R where S: "S = CHR ''#'' # R" by blast
  show ?thesis
  proof (cases "indexOf body statusTableMarker")
    case None
    with e have F: "keptFront body = take e body @ ''\<newline>''"
      by (simp add: keptFront_def substring_def)
    have "indexOf (take e body) endMarker = None"
      by (rule indexOf_take_before [OF e _ endMarker_chars(3)]) simp
    with assms(3) have "indexOf (take e body @ CHR 0x0A # S) endMarker = None"
      by (simp add: indexOf_across_separator [OF endMarker_chars(2,3)])
    with F show ?thesis by simp
  next
    case (Some h)
    with e assms(4) have "h \<le> e" by blast
    have "indexOf (take h body) endMarker = None"
      by (rule indexOf_take_before [OF e \<open>h \<le> e\<close> endMarker_chars(3)])
    moreover from assms(3) have "indexOf (CHR ''#'' # R) endMarker = None"
      by (simp add: S)
    ultimately have "indexOf (take h body @ CHR ''#'' # R) endMarker = None"
      by (rule indexOf_no_straddle [OF endMarker_chars(1,3)])
    with Some S show ?thesis by (simp add: keptFront_def substring_def)
  qed
qed

end
